theory Spec2Isabelle
  imports Main
begin

section \<open>The switchboard server (src/apps/server.c)\<close>

text \<open>
  A shallow embedding of the switchboard: the client registry, the channel caches, the
  routing table, the connection acceptor, the message dispatcher, the console
  \<open>route\<close> and \<open>print\<close> commands, the startup route loader and the monitor/recorder
  loop. Everything the C code does to the outside world (bytes sent on a socket, a socket
  closed, a line printed on the console) is appended to a log kept in the state. What the
  outside world hands to the code (the result of \<open>accept\<close>, of \<open>recv\<close>, a console
  line, a key press, a clock reading) is a parameter of the function that consumes it.

  C's \<open>int\<close> is modelled by \<open>int\<close>: the only counter that grows, \<open>next_client_id\<close>,
  would need \<open>2^31\<close> connections to overflow, and a number read from a command line is
  brought into the range of \<open>int\<close> as the C library does it. An access outside a fixed-size array is
  undefined in C; the model stops there with an \<open>error\<close> value that carries the state
  reached when the access is attempted.
\<close>

subsection \<open>Constants and characters\<close>

definition MAX_CLIENTS :: nat where
  "MAX_CLIENTS = 20"

definition CHANNELS_PER_APP :: nat where
  "CHANNELS_PER_APP = 5"

definition MAX_MSG_LENGTH :: nat where
  "MAX_MSG_LENGTH = 512"

definition DEFAULT_MONITOR_FPS :: int where
  "DEFAULT_MONITOR_FPS = 2"

abbreviation NUL :: char where "NUL \<equiv> CHR 0x00"
abbreviation NL :: char where "NL \<equiv> CHR 0x0A"
abbreviation CR :: char where "CR \<equiv> CHR 0x0D"
abbreviation TAB :: char where "TAB \<equiv> CHR 0x09"

subsection \<open>The C library functions the server calls\<close>

definition isdigit :: "char \<Rightarrow> bool" where
  "isdigit c = (48 \<le> (of_char c :: nat) \<and> (of_char c :: nat) \<le> 57)"

definition isspace :: "char \<Rightarrow> bool" where
  "isspace c = (c = CHR '' '' \<or> (9 \<le> (of_char c :: nat) \<and> (of_char c :: nat) \<le> 13))"

text \<open>\<open>c - '0'\<close> for a digit character.\<close>

definition digit_value :: "char \<Rightarrow> int" where
  "digit_value c = int (of_char c) - 48"

text \<open>
  A \<open>char *\<close> into a buffer is modelled by the bytes from the pointer to the end of the
  buffer; the C string it denotes ends before the first NUL.
\<close>

definition c_str :: "string \<Rightarrow> string" where
  "c_str bs = takeWhile (\<lambda>b. b \<noteq> NUL) bs"

text \<open>\<open>strchr(s, c)\<close> for \<open>c \<noteq> NUL\<close>: the offset of the first \<open>c\<close> in the C string.\<close>

definition strchr :: "string \<Rightarrow> char \<Rightarrow> nat option" where
  "strchr bs c =
     (if c \<in> set (c_str bs) then Some (length (takeWhile (\<lambda>b. b \<noteq> c) bs)) else None)"

text \<open>\<open>trim_newline\<close>: cut the string at its first newline, then at its first CR.\<close>

definition trim_newline :: "string \<Rightarrow> string" where
  "trim_newline s =
     (let s1 = (case strchr s NL of Some p \<Rightarrow> take p s | None \<Rightarrow> c_str s)
      in case strchr s1 CR of Some p \<Rightarrow> take p s1 | None \<Rightarrow> s1)"

text \<open>\<open>printf("%d")\<close>: the decimal digits of a number, with a minus sign when negative.\<close>

fun show_nat :: "nat \<Rightarrow> string" where
  "show_nat n =
     (if n < 10 then [''0123456789'' ! n]
      else show_nat (n div 10) @ [''0123456789'' ! (n mod 10)])"

declare show_nat.simps [simp del]

definition show_int :: "int \<Rightarrow> string" where
  "show_int k = (if k < 0 then CHR ''-'' # show_nat (nat (- k)) else show_nat (nat k))"

text \<open>
  \<open>atoi\<close> is \<open>(int) strtol(s, NULL, 10)\<close> in the C library the server is built with:
  skip white space, read an optional sign, then the longest run of digits. \<open>strtol\<close>
  gives the nearest bound of \<open>long\<close> (64 bits) for a run that does not fit it, and the
  conversion to \<open>int\<close> keeps the low 32 bits: \<open>atoi("4294967298")\<close> is 2. \<open>is_int\<close>
  tells the values of the type \<open>int\<close>.
\<close>

definition INT_MAX :: int where
  "INT_MAX = 2147483647"

definition LONG_MAX :: int where
  "LONG_MAX = 9223372036854775807"

definition is_int :: "int \<Rightarrow> bool" where
  "is_int k = (- INT_MAX - 1 \<le> k \<and> k \<le> INT_MAX)"

fun atoi_digits :: "int \<Rightarrow> string \<Rightarrow> int" where
  "atoi_digits acc [] = acc"
| "atoi_digits acc (c # cs) =
     (if isdigit c then atoi_digits (acc * 10 + digit_value c) cs else acc)"

definition strtol :: "string \<Rightarrow> int" where
  "strtol s =
     (let v = (case dropWhile isspace s of
                 [] \<Rightarrow> 0
               | c # cs \<Rightarrow>
                   if c = CHR ''-'' then - atoi_digits 0 cs
                   else if c = CHR ''+'' then atoi_digits 0 cs
                   else atoi_digits 0 (c # cs))
      in if LONG_MAX < v then LONG_MAX
         else if v < - LONG_MAX - 1 then - LONG_MAX - 1
         else v)"

definition int_of_long :: "int \<Rightarrow> int" where
  "int_of_long v = (v + INT_MAX + 1) mod (2 * INT_MAX + 2) - INT_MAX - 1"

definition atoi :: "string \<Rightarrow> int" where
  "atoi s = int_of_long (strtol s)"

text \<open>
  \<open>strtok(line, " ")\<close> called until it returns NULL: the maximal runs of characters
  other than a space, in order.
\<close>

fun strtok_from :: "string \<Rightarrow> string \<Rightarrow> string list" where
  "strtok_from cur [] = (if cur = [] then [] else [rev cur])"
| "strtok_from cur (c # cs) =
     (if c = CHR '' '' then (if cur = [] then strtok_from [] cs else rev cur # strtok_from [] cs)
      else strtok_from (c # cur) cs)"

definition strtok_all :: "string \<Rightarrow> string list" where
  "strtok_all s = strtok_from [] s"

subsection \<open>The data model\<close>

text \<open>
  The three structs and the globals of the program. \<open>active\<close> is an \<open>int\<close> that only
  ever holds 0 or 1 and is only tested for truth. A \<open>char\<close> array is the C string it
  holds.
\<close>

record ClientInfo =
  sockfd :: int
  client_id :: int
  active :: bool
  name :: string

record Route =
  in_client_id :: int
  in_channel :: int

record ClientData =
  last_out :: "string list"
  last_in :: "string list"

text \<open>What the server does to the outside world, in the order it does it.\<close>

datatype io_event =
    Send int string
  | Close int
  | Print string
  | Fopen string
  | Fwrite string
  | Fclose

record server =
  clients :: "ClientInfo list"
  client_data :: "ClientData list"
  routing :: "Route list list"
  next_client_id :: int
  io_log :: "io_event list"

text \<open>
  The access the C code makes outside an array, with the state in which it makes it:
  \<open>routing[cid][ch]\<close> outside \<open>routing[MAX_CLIENTS + 1][CHANNELS_PER_APP]\<close>, or
  \<open>last_in[ch]\<close> outside \<open>last_in[CHANNELS_PER_APP]\<close>.
\<close>

datatype error =
    Routing_out_of_bounds int int server
  | Last_in_out_of_bounds int server

type_synonym outcome = "error + server"

text \<open>The state in which an execution ends: normally, or at the access it cannot make.\<close>

fun final_state :: "outcome \<Rightarrow> server" where
  "final_state (Inr st) = st"
| "final_state (Inl (Routing_out_of_bounds cid ch st)) = st"
| "final_state (Inl (Last_in_out_of_bounds ch st)) = st"

text \<open>The state after the three \<open>memset\<close> calls of \<open>main\<close>.\<close>

definition init_server :: server where
  "init_server =
     \<lparr> clients = replicate MAX_CLIENTS \<lparr> sockfd = 0, client_id = 0, active = False, name = [] \<rparr>,
       client_data = replicate MAX_CLIENTS
         \<lparr> last_out = replicate CHANNELS_PER_APP [], last_in = replicate CHANNELS_PER_APP [] \<rparr>,
       routing = replicate (MAX_CLIENTS + 1)
         (replicate CHANNELS_PER_APP \<lparr> in_client_id = - 1, in_channel = - 1 \<rparr>),
       next_client_id = 1,
       io_log = [] \<rparr>"

text \<open>
  The shape of the fixed-size arrays, and the identifiers, which are values of the type
  \<open>int\<close>.
\<close>

definition wf_server :: "server \<Rightarrow> bool" where
  "wf_server st =
     (length (clients st) = MAX_CLIENTS \<and>
      length (client_data st) = MAX_CLIENTS \<and>
      list_all (\<lambda>d. length (last_out d) = CHANNELS_PER_APP \<and>
                    length (last_in d) = CHANNELS_PER_APP) (client_data st) \<and>
      length (routing st) = MAX_CLIENTS + 1 \<and>
      list_all (\<lambda>row. length row = CHANNELS_PER_APP) (routing st) \<and>
      list_all (\<lambda>c. is_int (client_id c)) (clients st) \<and>
      is_int (next_client_id st))"

definition emit :: "io_event \<Rightarrow> server \<Rightarrow> server" where
  "emit e st = st \<lparr> io_log := io_log st @ [e] \<rparr>"

subsection \<open>Client registry\<close>

text \<open>\<open>find_client_index\<close>: the first active slot with the identifier; \<open>None\<close> is \<open>-1\<close>.\<close>

definition find_client_index :: "server \<Rightarrow> int \<Rightarrow> nat option" where
  "find_client_index st cid =
     List.find (\<lambda>i. active (clients st ! i) \<and> client_id (clients st ! i) = cid)
       [0..<MAX_CLIENTS]"

text \<open>
  \<open>handle_new_connection\<close>. The parameter is what \<open>accept\<close> returned; a negative
  value is its failure, reported on stderr only.
\<close>

definition handle_new_connection :: "int \<Rightarrow> server \<Rightarrow> server" where
  "handle_new_connection client_sock st =
     (if client_sock < 0 then st
      else case List.find (\<lambda>i. \<not> active (clients st ! i)) [0..<MAX_CLIENTS] of
        None \<Rightarrow> emit (Close client_sock) (emit (Send client_sock (''Server full.'' @ [NL])) st)
      | Some idx \<Rightarrow>
          (let cid = next_client_id st;
               st1 = st \<lparr> next_client_id := cid + 1,
                          clients := (clients st)
                            [idx := \<lparr> sockfd = client_sock, client_id = cid, active = True,
                                      name = take 63 (''Client'' @ show_int cid) \<rparr>] \<rparr>;
               greet = take 127 (''Welcome to Switchboard. You are client_id='' @ show_int cid @
                                 '', with 5 in / 5 out.'' @ [NL])
           in emit (Print (''Client '' @ show_int cid @ '' connected (slot='' @
                           show_nat idx @ '').'' @ [NL]))
                (emit (Send client_sock greet) st1)))"

subsection \<open>Message dispatcher\<close>

text \<open>
  The body of the \<open>while\<close> loop of \<open>handle_client_input\<close> after the line has been
  cut out of the buffer (lines 262 to 294); \<open>line\<close> is the C string at \<open>start\<close>.
  \<open>out_channel\<close> is the value of \<open>out_ch\<close> after lines 262 to 265, \<open>message_text\<close>
  the string \<open>msg\<close> points to after lines 268 to 273, \<open>store_last_out\<close> and
  \<open>store_last_in\<close> the \<open>strncpy\<close> with its terminating NUL of lines 275 to 276 and 290
  to 291, and \<open>handle_frame\<close> the whole body.
\<close>

definition out_channel :: "string \<Rightarrow> int" where
  "out_channel line =
     (if take 3 line = ''out'' \<and> (case drop 3 line of [] \<Rightarrow> False | c # _ \<Rightarrow> isdigit c)
      then digit_value (line ! 3) else - 1)"

definition message_text :: "string \<Rightarrow> string" where
  "message_text line =
     (case strchr line (CHR '':'') of
        None \<Rightarrow> []
      | Some colon \<Rightarrow> dropWhile (\<lambda>c. c = CHR '' '' \<or> c = TAB) (drop (Suc colon) line))"

definition store_last_out :: "nat \<Rightarrow> nat \<Rightarrow> string \<Rightarrow> server \<Rightarrow> server" where
  "store_last_out i ch msg st =
     st \<lparr> client_data := (client_data st)
            [i := (client_data st ! i)
               \<lparr> last_out := (last_out (client_data st ! i))
                    [ch := take (MAX_MSG_LENGTH - 1) msg] \<rparr>] \<rparr>"

definition store_last_in :: "nat \<Rightarrow> nat \<Rightarrow> string \<Rightarrow> server \<Rightarrow> server" where
  "store_last_in i ch msg st =
     st \<lparr> client_data := (client_data st)
            [i := (client_data st ! i)
               \<lparr> last_in := (last_in (client_data st ! i))
                    [ch := take (MAX_MSG_LENGTH - 1) msg] \<rparr>] \<rparr>"

definition handle_frame :: "nat \<Rightarrow> string \<Rightarrow> server \<Rightarrow> outcome" where
  "handle_frame i line st =
     (let out_ch = out_channel line in
      if 0 \<le> out_ch \<and> out_ch < int CHANNELS_PER_APP then
        (let msg = message_text line;
             st1 = store_last_out i (nat out_ch) msg st;
             out_cid = client_id (clients st1 ! i)
         in if out_cid < 0 \<or> int MAX_CLIENTS < out_cid
            then Inl (Routing_out_of_bounds out_cid out_ch st1)
            else
              (let r = routing st1 ! nat out_cid ! nat out_ch in
               if 0 \<le> in_client_id r then
                 (case find_client_index st1 (in_client_id r) of
                    None \<Rightarrow> Inr st1
                  | Some idx_in \<Rightarrow>
                      (let outbuf = take 599 (''in'' @ show_int (in_channel r) @
                                      '' from client'' @ show_int out_cid @ '': '' @ msg @ [NL]);
                           st2 = emit (Send (sockfd (clients st1 ! idx_in)) outbuf) st1
                       in if in_channel r < 0 \<or> int CHANNELS_PER_APP \<le> in_channel r
                          then Inl (Last_in_out_of_bounds (in_channel r) st2)
                          else Inr (store_last_in idx_in (nat (in_channel r)) outbuf st2)))
               else Inr st1))
      else Inr st)"

text \<open>
  The \<open>while (1)\<close> loop: \<open>buf\<close> holds the bytes from \<open>start\<close> to the end of what
  \<open>recv\<close> wrote; the rest of the zeroed buffer is the end of the list.
\<close>

function process_lines :: "nat \<Rightarrow> string \<Rightarrow> server \<Rightarrow> outcome" where
  "process_lines i buf st =
     (case strchr buf NL of
        None \<Rightarrow> Inr st
      | Some nl \<Rightarrow>
          (let line0 = take nl buf;
               line1 = (case strchr line0 CR of Some cr \<Rightarrow> take cr line0 | None \<Rightarrow> line0);
               line = trim_newline line1
           in case handle_frame i line st of
                Inl e \<Rightarrow> Inl e
              | Inr st1 \<Rightarrow> process_lines i (drop (Suc nl) buf) st1))"
  by pat_completeness auto
termination
  by (relation "measure (\<lambda>(i, buf, st). length buf)")
     (auto simp: strchr_def c_str_def split: if_splits intro!: diff_less)

declare process_lines.simps [simp del]

text \<open>What \<open>recv\<close> returned: \<open>n \<le> 0\<close>, or the \<open>n\<close> bytes read.\<close>

datatype recv_result = Recv_closed | Recv_data string

text \<open>
  \<open>handle_client_input\<close>. \<open>recv\<close> is asked for at most \<open>sizeof(buf) - 1 = 511\<close>
  bytes, and a read of no bytes is the end of the stream. \<open>disconnect\<close> is the branch
  \<open>n \<le> 0\<close> (lines 244 to 249). The buffer is a local of the function, zeroed at each
  call: nothing of one read is left for the next.
\<close>

definition disconnect :: "nat \<Rightarrow> server \<Rightarrow> server" where
  "disconnect i st =
     (emit (Close (sockfd (clients st ! i)))
        (emit (Print (''Client '' @ show_int (client_id (clients st ! i)) @
                      '' disconnected.'' @ [NL])) st))
       \<lparr> clients := (clients st) [i := (clients st ! i) \<lparr> active := False \<rparr>] \<rparr>"

definition handle_client_input :: "nat \<Rightarrow> recv_result \<Rightarrow> server \<Rightarrow> outcome" where
  "handle_client_input i r st =
     (case r of
        Recv_closed \<Rightarrow> Inr (disconnect i st)
      | Recv_data bytes \<Rightarrow>
          if bytes = [] then Inr (disconnect i st)
          else process_lines i (take 511 bytes) st)"

subsection \<open>Routing table\<close>

text \<open>
  The two assignments to \<open>routing[outCID][outCH]\<close> that end \<open>route_command\<close> and
  \<open>route_command_from_file\<close>.
\<close>

definition set_route :: "int \<Rightarrow> int \<Rightarrow> int \<Rightarrow> int \<Rightarrow> server \<Rightarrow> outcome" where
  "set_route outCID outCH inCID inCH st =
     (if outCID < 0 \<or> int MAX_CLIENTS < outCID \<or> outCH < 0 \<or> int CHANNELS_PER_APP \<le> outCH
      then Inl (Routing_out_of_bounds outCID outCH st)
      else Inr (st \<lparr> routing := (routing st)
                  [nat outCID := (routing st ! nat outCID)
                     [nat outCH := \<lparr> in_client_id = inCID, in_channel = inCH \<rparr>]] \<rparr>))"

text \<open>
  \<open>route_command\<close>: the console's setter. Both clients must be found in the registry
  before the entry is written.
\<close>

definition route_command :: "int \<Rightarrow> int \<Rightarrow> int \<Rightarrow> int \<Rightarrow> server \<Rightarrow> outcome" where
  "route_command outCID outCH inCID inCH st =
     (case find_client_index st outCID of
        None \<Rightarrow> Inr (emit (Print (''No such client '' @ show_int outCID @ [NL])) st)
      | Some idxO \<Rightarrow>
          (case find_client_index st inCID of
             None \<Rightarrow> Inr (emit (Print (''No such client '' @ show_int inCID @ [NL])) st)
           | Some idxI \<Rightarrow>
               (case set_route outCID outCH inCID inCH st of
                  Inl e \<Rightarrow> Inl e
                | Inr st1 \<Rightarrow>
                    Inr (emit (Print (''Routed client'' @ show_int outCID @ '' out'' @
                           show_int outCH @ '' -> client'' @ show_int inCID @ '' in'' @
                           show_int inCH @ [NL])) st1))))"

text \<open>\<open>route_command_from_file\<close>: the startup loader's setter, with no registry check.\<close>

definition route_command_from_file :: "int \<Rightarrow> int \<Rightarrow> int \<Rightarrow> int \<Rightarrow> server \<Rightarrow> outcome" where
  "route_command_from_file outCID outCH inCID inCH st =
     (case set_route outCID outCH inCID inCH st of
        Inl e \<Rightarrow> Inl e
      | Inr st1 \<Rightarrow>
          Inr (emit (Print (''Preconfigured: client'' @ show_int outCID @ '' out'' @
                 show_int outCH @ '' -> client'' @ show_int inCID @ '' in'' @
                 show_int inCH @ [NL])) st1))"

text \<open>A \<open>for\<close> loop whose body may stop at an out-of-bounds access.\<close>

fun for_each :: "('a \<Rightarrow> server \<Rightarrow> outcome) \<Rightarrow> 'a list \<Rightarrow> server \<Rightarrow> outcome" where
  "for_each body [] st = Inr st"
| "for_each body (i # is) st =
     (case body i st of Inl e \<Rightarrow> Inl e | Inr st1 \<Rightarrow> for_each body is st1)"

definition channel_indices :: "int list" where
  "channel_indices = map int [0..<CHANNELS_PER_APP]"

text \<open>
  The four-way expansion that ends the \<open>route\<close> branch of \<open>handle_console_input\<close>
  (lines 399 to 413) and the loop body of \<open>process_routing_file\<close> (lines 569 to 583);
  \<open>setter\<close> is \<open>route_command\<close> in the first and \<open>route_command_from_file\<close> in the
  second.
\<close>

definition expand_route ::
  "(int \<Rightarrow> int \<Rightarrow> int \<Rightarrow> int \<Rightarrow> server \<Rightarrow> outcome) \<Rightarrow>
     int \<Rightarrow> bool \<Rightarrow> int \<Rightarrow> int \<Rightarrow> bool \<Rightarrow> int \<Rightarrow> server \<Rightarrow> outcome" where
  "expand_route setter outCID outAll fixedOut inCID inAll fixedIn st =
     (if outAll \<and> inAll then for_each (\<lambda>i. setter outCID i inCID i) channel_indices st
      else if outAll \<and> \<not> inAll then for_each (\<lambda>i. setter outCID i inCID fixedIn) channel_indices st
      else if \<not> outAll \<and> inAll then for_each (\<lambda>i. setter outCID fixedOut inCID i) channel_indices st
      else setter outCID fixedOut inCID fixedIn st)"

text \<open>
  The channel token: a token that starts with a digit is read by \<open>atoi\<close>, the prefix
  (\<open>out\<close> or \<open>in\<close>) followed by a digit gives that digit, anything else leaves \<open>-1\<close>.
\<close>

definition starts_with_digit :: "string \<Rightarrow> bool" where
  "starts_with_digit tok = (case tok of [] \<Rightarrow> False | c # _ \<Rightarrow> isdigit c)"

definition prefixed_digit :: "string \<Rightarrow> string \<Rightarrow> bool" where
  "prefixed_digit pre tok =
     (take (length pre) tok = pre \<and> starts_with_digit (drop (length pre) tok))"

definition channel_token :: "string \<Rightarrow> string \<Rightarrow> int" where
  "channel_token pre tok =
     (if starts_with_digit tok then atoi tok
      else if prefixed_digit pre tok then digit_value (tok ! length pre)
      else - 1)"

definition channel_ok :: "int \<Rightarrow> bool" where
  "channel_ok ch = (0 \<le> ch \<and> ch < int CHANNELS_PER_APP)"

subsection \<open>Console commands\<close>

text \<open>\<open>printf("%-Ns")\<close> and \<open>printf("%-N.Ns")\<close>.\<close>

definition pad_right :: "nat \<Rightarrow> string \<Rightarrow> string" where
  "pad_right w s = s @ replicate (w - length s) (CHR '' '')"

definition pad_trunc :: "nat \<Rightarrow> string \<Rightarrow> string" where
  "pad_trunc w s = pad_right w (take w s)"

definition or_all :: string where
  "or_all = '' Must be 0..4 or '' @ [CHR 0x27] @ ''all'' @ [CHR 0x27] @ [NL]"

text \<open>The \<open>route\<close> branch of \<open>handle_console_input\<close>, on the tokens of the line.\<close>

definition console_route :: "string list \<Rightarrow> server \<Rightarrow> outcome" where
  "console_route toks st =
     (case toks of
        t0 # pOutCID # pOutStr # pInCID # pInStr # _ \<Rightarrow>
          (let outCID = atoi pOutCID;
               inCID = atoi pInCID;
               outAll = (pOutStr = ''all'');
               fixedOut = (if outAll then - 1 else channel_token ''out'' pOutStr);
               inAll = (pInStr = ''all'');
               fixedIn = (if inAll then - 1 else channel_token ''in'' pInStr)
           in if \<not> outAll \<and> \<not> channel_ok fixedOut then
                Inr (emit (Print (''Invalid output channel.'' @ or_all)) st)
              else if \<not> inAll \<and> \<not> channel_ok fixedIn then
                Inr (emit (Print (''Invalid input channel.'' @ or_all)) st)
              else expand_route route_command outCID outAll fixedOut inCID inAll fixedIn st)
      | _ \<Rightarrow> Inr (emit (Print (''Usage: route <outCID> <outCH|all> <inCID> <inCH|all>'' @ [NL])) st))"

text \<open>Successive \<open>printf\<close> calls, one console line each.\<close>

definition print_lines :: "string list \<Rightarrow> server \<Rightarrow> server" where
  "print_lines ls st = foldl (\<lambda>s l. emit (Print l) s) st ls"

text \<open>The \<open>print\<close> branch: one console line per channel of the client's slot.\<close>

definition print_row :: "server \<Rightarrow> nat \<Rightarrow> nat \<Rightarrow> string" where
  "print_row st idx ch =
     pad_right 8 (show_nat ch) @ '' | '' @
     pad_trunc 50 (last_out (client_data st ! idx) ! ch) @ '' | '' @
     pad_trunc 50 (last_in (client_data st ! idx) ! ch) @ [NL]"

definition console_print :: "string list \<Rightarrow> server \<Rightarrow> server" where
  "console_print toks st =
     (case toks of
        t0 # pClientID # _ \<Rightarrow>
          (let clientID = atoi pClientID in
           case find_client_index st clientID of
             None \<Rightarrow> emit (Print (''No active client with clientID '' @ show_int clientID @ [NL])) st
           | Some idx \<Rightarrow>
               print_lines
                 ([''Data for client'' @ show_int clientID @ '' ('' @
                     name (clients st ! idx) @ ''):'' @ [NL],
                   pad_right 8 ''Channel'' @ '' | '' @ pad_right 50 ''Output'' @
                     '' | '' @ pad_right 50 ''Input'' @ [NL],
                   replicate 80 (CHR ''-'') @ [NL]] @
                  map (print_row st idx) [0..<CHANNELS_PER_APP])
                 st)
      | _ \<Rightarrow> emit (Print (''Usage: print <clientID>'' @ [NL])) st)"

subsection \<open>Startup route loader\<close>

text \<open>
  One iteration of the \<open>while (fgets ...)\<close> loop of \<open>process_routing_file\<close>, on the
  locals \<open>all_success\<close> and \<open>cmd_count\<close> and the server state. \<open>raw\<close> is what
  \<open>fgets\<close> returned.
\<close>

definition routing_file_failure ::
  "string \<Rightarrow> int \<Rightarrow> server \<Rightarrow> error + (bool \<times> int \<times> server)" where
  "routing_file_failure msg cmd_count st = Inr (False, cmd_count, emit (Print msg) st)"

definition process_routing_line ::
  "string \<Rightarrow> bool \<times> int \<times> server \<Rightarrow> error + (bool \<times> int \<times> server)" where
  "process_routing_line raw acc =
     (case acc of (all_success, cmd_count0, st) \<Rightarrow>
      (let line = trim_newline raw in
       if line = [] \<or> take 5 line \<noteq> ''route'' then Inr (all_success, cmd_count0, st)
       else
         (let cmd_count = cmd_count0 + 1 in
          case strtok_all line of
            [] \<Rightarrow> routing_file_failure (''Invalid command in routing file.'' @ [NL]) cmd_count st
          | token # rest \<Rightarrow>
              if token \<noteq> ''route'' then
                routing_file_failure (''Invalid command in routing file.'' @ [NL]) cmd_count st
              else
                (case rest of
                   pOutCID # pOutStr # pInCID # pInStr # _ \<Rightarrow>
                     (let outCID = atoi pOutCID;
                          inCID = atoi pInCID;
                          outAll = (pOutStr = ''all'');
                          inAll = (pInStr = ''all'');
                          fixedOut = (if outAll then - 1 else channel_token ''out'' pOutStr);
                          fixedIn = (if inAll then - 1 else channel_token ''in'' pInStr)
                      in if \<not> outAll \<and> \<not> starts_with_digit pOutStr \<and>
                            \<not> prefixed_digit ''out'' pOutStr then
                           routing_file_failure
                             (''Invalid output channel in routing file.'' @ [NL]) cmd_count st
                         else if \<not> inAll \<and> \<not> starts_with_digit pInStr \<and>
                            \<not> prefixed_digit ''in'' pInStr then
                           routing_file_failure
                             (''Invalid input channel in routing file.'' @ [NL]) cmd_count st
                         else if \<not> outAll \<and> \<not> channel_ok fixedOut then
                           routing_file_failure
                             (''Invalid output channel value in routing file.'' @ or_all)
                             cmd_count st
                         else if \<not> inAll \<and> \<not> channel_ok fixedIn then
                           routing_file_failure
                             (''Invalid input channel value in routing file.'' @ or_all)
                             cmd_count st
                         else
                           (case expand_route route_command_from_file
                                   outCID outAll fixedOut inCID inAll fixedIn st of
                              Inl e \<Rightarrow> Inl e
                            | Inr st1 \<Rightarrow> Inr (all_success, cmd_count, st1)))
                 | _ \<Rightarrow>
                     routing_file_failure
                       (''Incomplete routing command in file.'' @ [NL]) cmd_count st))))"

fun process_routing_lines ::
  "string list \<Rightarrow> bool \<times> int \<times> server \<Rightarrow> error + (bool \<times> int \<times> server)" where
  "process_routing_lines [] acc = Inr acc"
| "process_routing_lines (raw # raws) acc =
     (case process_routing_line raw acc of
        Inl e \<Rightarrow> Inl e
      | Inr acc1 \<Rightarrow> process_routing_lines raws acc1)"

text \<open>
  \<open>process_routing_file\<close>. The parameter is the file \<open>route.rt\<close> as the successive
  results of \<open>fgets\<close>, or \<open>None\<close> when it cannot be opened.
\<close>

definition process_routing_file :: "string list option \<Rightarrow> server \<Rightarrow> outcome" where
  "process_routing_file file st =
     (case file of
        None \<Rightarrow> Inr (emit (Print (''Routing file '' @ [CHR 0x27] @ ''route.rt'' @ [CHR 0x27] @ '' not found.'' @ [NL])) st)
      | Some raws \<Rightarrow>
          (case process_routing_lines raws (True, 0, st) of
             Inl e \<Rightarrow> Inl e
           | Inr (all_success, cmd_count, st1) \<Rightarrow>
               if \<not> all_success \<or> cmd_count = 0 then
                 Inr (emit (Print (''Error processing routing file or no valid commands found.''
                                   @ [NL])) st1)
               else
                 Inr (foldl (\<lambda>s raw. emit (Print raw) s)
                        (emit (Print (''Routing file executed successfully. Contents of '' @ [CHR 0x27] @
                                      ''route.rt'' @ [CHR 0x27] @ '':'' @ [NL])) st1)
                        raws)))"

text \<open>
  \<open>show_help\<close>, \<open>list_clients\<close> and \<open>list_routes\<close> only print. \<open>list_routes\<close> reads
  \<open>routing[cid]\<close> for every identifier handed out so far that is still connected.
\<close>

definition help_lines :: "string list" where
  "help_lines =
     [''Commands:'' @ [NL],
      '' help                        - show this help'' @ [NL],
      '' list                        - list connected clients'' @ [NL],
      '' routes                      - list routing table'' @ [NL],
      '' route X Y Z W               - connect clientX outY -> clientZ inW'' @ [NL],
      ''   (Y and/or W can be '' @ [CHR 0x27] @ ''all'' @ [CHR 0x27] @ '' to route multiple channels)'' @ [NL],
      '' print <clientID>            - show last data for all channels of the given client'' @ [NL],
      '' monitor [FPS]               - display real time output of all clients'' @ [NL],
      ''                              Optional FPS sets update rate (default '' @ show_int DEFAULT_MONITOR_FPS @ '' FPS).'' @ [NL],
      ''                              In monitor mode, press '' @ [CHR 0x27] @ ''R'' @ [CHR 0x27] @ '' to toggle recording to CSV, '' @ [CHR 0x27] @ ''Q'' @ [CHR 0x27] @ '' to quit.'' @ [NL],
      '' exit                        - shutdown the current tmux session (all windows)'' @ [NL],
      [NL]]"

definition show_help :: "server \<Rightarrow> server" where
  "show_help st = print_lines help_lines st"

definition list_clients :: "server \<Rightarrow> server" where
  "list_clients st =
     print_lines
       ((''Active clients:'' @ [NL]) #
        map (\<lambda>i. '' clientID='' @ show_int (client_id (clients st ! i)) @ '' sockfd='' @
                  show_int (sockfd (clients st ! i)) @ '' name='' @ name (clients st ! i) @ [NL])
          (filter (\<lambda>i. active (clients st ! i)) [0..<MAX_CLIENTS]))
       st"

definition route_line :: "int \<Rightarrow> int \<Rightarrow> Route \<Rightarrow> string" where
  "route_line cid ch r =
     '' client'' @ show_int cid @ ''.out'' @ show_int ch @ '' -> client'' @
     show_int (in_client_id r) @ ''.in'' @ show_int (in_channel r) @ [NL]"

definition list_routes_client :: "int \<Rightarrow> server \<Rightarrow> outcome" where
  "list_routes_client cid st =
     (case find_client_index st cid of
        None \<Rightarrow> Inr st
      | Some idx \<Rightarrow>
          if cid < 0 \<or> int MAX_CLIENTS < cid then Inl (Routing_out_of_bounds cid 0 st)
          else Inr (print_lines
                 (map (\<lambda>ch. route_line cid ch (routing st ! nat cid ! nat ch))
                    (filter (\<lambda>ch. 0 \<le> in_client_id (routing st ! nat cid ! nat ch))
                       channel_indices))
                 st))"

definition list_routes :: "server \<Rightarrow> outcome" where
  "list_routes st =
     for_each list_routes_client (map int [1..<nat (next_client_id st)])
       (emit (Print (''Routes:'' @ [NL])) st)"

subsection \<open>Monitor and recorder\<close>

record timeval =
  tv_sec :: int
  tv_usec :: int

text \<open>The locals of \<open>monitor_mode\<close>; \<open>log_file\<close> tells whether the handle is not NULL.\<close>

record monitor =
  start_time :: timeval
  recording :: bool
  log_file :: bool
  log_filename :: string
  recorded_client_indices :: "nat list"
  quit :: bool

text \<open>
  What one iteration of the monitor loop gets from outside: whether \<open>select\<close> failed,
  the sockets it reported readable with what \<open>recv\<close> returns on each, the key read from
  the terminal if any, and, for the calls made when the key toggles recording or a row is
  written, the reading of \<open>time\<close>, the text \<open>strftime\<close> made of it, whether \<open>fopen\<close>
  succeeded, and the reading of \<open>gettimeofday\<close>.
\<close>

record tick =
  select_failed :: bool
  readfds :: "int \<Rightarrow> recv_result option"
  key_read :: "char option"
  time_sec :: int
  strftime_text :: string
  fopen_ok :: bool
  gettimeofday_now :: timeval

record monitor_input =
  entry_time :: timeval
  ticks :: "tick list"

text \<open>
  The loop \<open>for (i = 0; i < MAX_CLIENTS; i++) if (clients[i].active && FD_ISSET(...))
  handle_client_input(i)\<close> of \<open>main\<close> and of \<open>monitor_mode\<close>.
\<close>

fun poll_clients :: "(int \<Rightarrow> recv_result option) \<Rightarrow> nat list \<Rightarrow> server \<Rightarrow> outcome" where
  "poll_clients fds [] st = Inr st"
| "poll_clients fds (i # is) st =
     (if active (clients st ! i) then
        (case fds (sockfd (clients st ! i)) of
           None \<Rightarrow> poll_clients fds is st
         | Some r \<Rightarrow>
             (case handle_client_input i r st of
                Inl e \<Rightarrow> Inl e
              | Inr st1 \<Rightarrow> poll_clients fds is st1))
      else poll_clients fds is st)"

text \<open>The difference of two clock readings, with the borrow of lines 778 to 783.\<close>

definition timeval_delta :: "timeval \<Rightarrow> timeval \<Rightarrow> timeval" where
  "timeval_delta now start =
     (let s = tv_sec now - tv_sec start; u = tv_usec now - tv_usec start
      in if u < 0 then \<lparr> tv_sec = s - 1, tv_usec = u + 1000000 \<rparr>
         else \<lparr> tv_sec = s, tv_usec = u \<rparr>)"

text \<open>\<open>printf("%06ld")\<close>.\<close>

definition zero_pad :: "nat \<Rightarrow> string \<Rightarrow> string" where
  "zero_pad w s = replicate (w - length s) (CHR ''0'') @ s"

definition show_int_06 :: "int \<Rightarrow> string" where
  "show_int_06 k =
     (if k < 0 then CHR ''-'' # zero_pad 5 (show_nat (nat (- k))) else zero_pad 6 (show_nat (nat k)))"

text \<open>The first column of a data row: \<open>"\"%ld.%06ld\""\<close>.\<close>

definition timestamp_column :: "timeval \<Rightarrow> string" where
  "timestamp_column d =
     [CHR 0x22] @ show_int (tv_sec d) @ ''.'' @ show_int_06 (tv_usec d) @ [CHR 0x22]"

text \<open>
  The fields of a row are written with a comma after each but the last: the fields
  joined by commas.
\<close>

fun join_commas :: "string list \<Rightarrow> string" where
  "join_commas [] = []"
| "join_commas [f] = f"
| "join_commas (f # g # fs) = f @ '','' @ join_commas (g # fs)"

definition header_row :: "server \<Rightarrow> nat list \<Rightarrow> string" where
  "header_row st idxs =
     ''timestamp,'' @
     join_commas (concat (map (\<lambda>idx. map (\<lambda>ch. ''client'' @ show_int (client_id (clients st ! idx)) @
                                              ''_ch'' @ show_nat ch) [0..<CHANNELS_PER_APP]) idxs))
     @ [NL]"

definition csv_field :: "string \<Rightarrow> string" where
  "csv_field s =
     [CHR 0x22] @ map (\<lambda>c. if c = NL \<or> c = CR then CHR '' '' else c) (take (MAX_MSG_LENGTH - 1) s)
     @ [CHR 0x22]"

definition data_row :: "timeval \<Rightarrow> timeval \<Rightarrow> server \<Rightarrow> nat list \<Rightarrow> string" where
  "data_row start now st idxs =
     timestamp_column (timeval_delta now start) @ '','' @
     join_commas (concat (map (\<lambda>idx. map (\<lambda>ch. csv_field (last_out (client_data st ! idx) ! ch))
                                          [0..<CHANNELS_PER_APP]) idxs))
     @ [NL]"

text \<open>The key handler (lines 723 to 772).\<close>

definition toggle_recording :: "tick \<Rightarrow> monitor \<Rightarrow> server \<Rightarrow> monitor \<times> server" where
  "toggle_recording t m st =
     (if \<not> recording m then
        (let fname = take 255 (''logs/monitor_'' @ strftime_text t @ ''.csv'') in
         if \<not> fopen_ok t then (m \<lparr> log_filename := fname, log_file := False \<rparr>, st)
         else
           (let idxs = filter (\<lambda>i. active (clients st ! i)) [0..<MAX_CLIENTS] in
            (m \<lparr> log_filename := fname, log_file := True,
                 recorded_client_indices := idxs, recording := True \<rparr>,
             emit (Fwrite (header_row st idxs)) (emit (Fopen fname) st))))
      else
        (m \<lparr> log_file := False, recording := False \<rparr>,
         if log_file m then emit Fclose st else st))"

definition handle_key :: "tick \<Rightarrow> monitor \<Rightarrow> server \<Rightarrow> monitor \<times> server" where
  "handle_key t m st =
     (case key_read t of
        None \<Rightarrow> (m, st)
      | Some ch \<Rightarrow>
          if ch = CHR ''Q'' \<or> ch = CHR ''q'' then (m \<lparr> quit := True \<rparr>, st)
          else if ch = CHR ''R'' \<or> ch = CHR ''r'' then toggle_recording t m st
          else (m, st))"

text \<open>The recording block (lines 775 to 803).\<close>

definition record_row :: "tick \<Rightarrow> monitor \<Rightarrow> server \<Rightarrow> server" where
  "record_row t m st =
     (if recording m \<and> log_file m then
        emit (Fwrite (data_row (start_time m) (gettimeofday_now t) st (recorded_client_indices m))) st
      else st)"

text \<open>The redraw (lines 806 to 825); \<open>system("clear")\<close> is left out.\<close>

definition monitor_channels :: "ClientData \<Rightarrow> string" where
  "monitor_channels d =
     concat (map (\<lambda>ch. ''['' @ show_nat ch @ '']: '' @ pad_trunc 10 (last_out d ! ch) @ '' '')
               [0..<CHANNELS_PER_APP])"

definition monitor_row :: "server \<Rightarrow> nat \<Rightarrow> string" where
  "monitor_row st i =
     ''client'' @ pad_right 4 (show_int (client_id (clients st ! i))) @ '' | '' @
     monitor_channels (client_data st ! i) @ [NL]"

definition monitor_view :: "int \<Rightarrow> monitor \<Rightarrow> server \<Rightarrow> string list" where
  "monitor_view fps m st =
     [''=== Monitoring Mode (FPS: '' @ show_int fps @ '') ==='' @ [NL],
      ''Press '' @ [CHR 0x27] @ ''Q'' @ [CHR 0x27] @ '' to quit, '' @ [CHR 0x27] @ ''R'' @
        [CHR 0x27] @ '' to toggle recording.'' @ [NL],
      (if recording m then ''Recording: ON (file: '' @ log_filename m @ '')'' @ [NL]
       else ''Recording: OFF'' @ [NL]),
      replicate 61 (CHR ''-'') @ [NL],
      pad_right 10 ''Client'' @ '' | '' @ pad_right 50 ''Output Channels (0..4)'' @ [NL],
      replicate 61 (CHR ''-'') @ [NL]] @
     map (monitor_row st) (filter (\<lambda>i. active (clients st ! i)) [0..<MAX_CLIENTS])"

text \<open>One iteration of the monitor loop after \<open>select\<close> has returned without error.\<close>

definition monitor_tick :: "int \<Rightarrow> tick \<Rightarrow> monitor \<Rightarrow> server \<Rightarrow> error + (monitor \<times> server)" where
  "monitor_tick fps t m st =
     (case poll_clients (readfds t) [0..<MAX_CLIENTS] st of
        Inl e \<Rightarrow> Inl e
      | Inr st1 \<Rightarrow>
          (case handle_key t m st1 of
             (m1, st2) \<Rightarrow>
               (let st3 = record_row t m1 st2
                in Inr (m1, print_lines (monitor_view fps m1 st3) st3))))"

text \<open>
  The loop \<open>while (!quit)\<close>, run on the inputs of its successive iterations. The result
  says whether the loop was left (by the quit key or by a failing \<open>select\<close>); when the
  inputs end first, the loop is still running.
\<close>

fun monitor_loop ::
  "int \<Rightarrow> tick list \<Rightarrow> monitor \<Rightarrow> server \<Rightarrow> error + (bool \<times> monitor \<times> server)" where
  "monitor_loop fps [] m st = Inr (quit m, m, st)"
| "monitor_loop fps (t # ts) m st =
     (if quit m then Inr (True, m, st)
      else if select_failed t then Inr (True, m, st)
      else case monitor_tick fps t m st of
             Inl e \<Rightarrow> Inl e
           | Inr (m1, st1) \<Rightarrow> monitor_loop fps ts m1 st1)"

text \<open>
  \<open>monitor_mode\<close>, with a terminal whose mode can be read and set. \<open>start_time\<close> is read
  once, before the loop.
\<close>

definition monitor_mode :: "int \<Rightarrow> monitor_input \<Rightarrow> server \<Rightarrow> outcome" where
  "monitor_mode fps mi st =
     (let m0 = \<lparr> start_time = entry_time mi, recording = False, log_file = False,
                 log_filename = [], recorded_client_indices = [], quit = False \<rparr>;
          st0 = emit (Print (''Entering monitor mode at '' @ show_int fps @ '' FPS.'' @ [NL] @
                   ''Press '' @ [CHR 0x27] @ ''Q'' @ [CHR 0x27] @ '' to quit, '' @ [CHR 0x27] @
                   ''R'' @ [CHR 0x27] @ '' to toggle recording.'' @ [NL])) st
      in case monitor_loop fps (ticks mi) m0 st0 of
           Inl e \<Rightarrow> Inl e
         | Inr (left, m, st1) \<Rightarrow>
             if left then
               Inr (emit (Print (''Exiting monitor mode.'' @ [NL]))
                      (if log_file m then emit Fclose st1 else st1))
             else Inr st1)"

subsection \<open>Console dispatch and the main loop\<close>

text \<open>
  \<open>handle_console_input\<close>. \<open>raw\<close> is what \<open>fgets\<close> returned; \<open>mi\<close> is what monitor
  mode reads if the line enters it. \<open>exit\<close> runs \<open>shutdown_tmux\<close>, which ends the process
  or returns without touching the server's data; the end of the process is not modelled.
\<close>

definition handle_console_input :: "string \<Rightarrow> monitor_input \<Rightarrow> server \<Rightarrow> outcome" where
  "handle_console_input raw mi st =
     (let cmdline = trim_newline raw in
      if cmdline = [] then Inr st
      else if cmdline = ''help'' then Inr (show_help st)
      else if cmdline = ''list'' then Inr (list_clients st)
      else if cmdline = ''routes'' then list_routes st
      else if cmdline = ''exit'' then Inr st
      else if take 7 cmdline = ''monitor'' then
        (let fps = (case strtok_all cmdline of
                      t0 # arg # _ \<Rightarrow> if 0 < atoi arg then atoi arg else DEFAULT_MONITOR_FPS
                    | _ \<Rightarrow> DEFAULT_MONITOR_FPS)
         in monitor_mode fps mi st)
      else if take 5 cmdline = ''print'' then Inr (console_print (strtok_all cmdline) st)
      else if take 5 cmdline = ''route'' then console_route (strtok_all cmdline) st
      else Inr (emit (Print (''Unknown command: '' @ cmdline @ [NL])) st))"

text \<open>
  What \<open>select\<close> reports in one iteration of the loop of \<open>main\<close>: a pending connection
  with what \<open>accept\<close> returns, the readable client sockets, a console line.
\<close>

record select_result =
  select_error :: bool
  accept_result :: "int option"
  client_fds :: "int \<Rightarrow> recv_result option"
  console_line :: "(string \<times> monitor_input) option"

definition main_iteration :: "select_result \<Rightarrow> server \<Rightarrow> outcome" where
  "main_iteration r st =
     (let st1 = (case accept_result r of None \<Rightarrow> st | Some s \<Rightarrow> handle_new_connection s st)
      in case poll_clients (client_fds r) [0..<MAX_CLIENTS] st1 of
           Inl e \<Rightarrow> Inl e
         | Inr st2 \<Rightarrow>
             (case console_line r of
                None \<Rightarrow> Inr st2
              | Some (raw, mi) \<Rightarrow> handle_console_input raw mi st2))"

fun main_loop :: "select_result list \<Rightarrow> server \<Rightarrow> outcome" where
  "main_loop [] st = Inr st"
| "main_loop (r # rs) st =
     (if select_error r then Inr st
      else case main_iteration r st of
             Inl e \<Rightarrow> Inl e
           | Inr st1 \<Rightarrow> main_loop rs st1)"

text \<open>\<open>main\<close> once the listening socket is set up: the startup file, then the loop.\<close>

definition server_main :: "string list option \<Rightarrow> select_result list \<Rightarrow> outcome" where
  "server_main file rs =
     (case process_routing_file file init_server of
        Inl e \<Rightarrow> Inl e
      | Inr st \<Rightarrow> main_loop rs st)"

subsection \<open>Notions used to state the properties\<close>

text \<open>Whether an execution ended normally.\<close>

fun returns :: "outcome \<Rightarrow> bool" where
  "returns (Inr st) = True"
| "returns (Inl e) = False"

text \<open>Every slot of the registry is occupied.\<close>

definition registry_full :: "server \<Rightarrow> bool" where
  "registry_full st = list_all (\<lambda>i. active (clients st ! i)) [0..<MAX_CLIENTS]"

text \<open>
  A token of a command line: not empty, and free of the characters that end a token, a
  line or a C string.
\<close>

definition plain :: "string \<Rightarrow> bool" where
  "plain t = (t \<noteq> [] \<and> list_all (\<lambda>c. c \<noteq> CHR '' '' \<and> c \<noteq> NL \<and> c \<noteq> CR \<and> c \<noteq> NUL) t)"

text \<open>The line \<open>route a c b d\<close> as typed on the console or written in the startup file.\<close>

definition route_text :: "string \<Rightarrow> string \<Rightarrow> string \<Rightarrow> string \<Rightarrow> string" where
  "route_text a c b d = ''route '' @ a @ '' '' @ c @ '' '' @ b @ '' '' @ d @ [NL]"

text \<open>An iteration of the main loop in which only the console is readable.\<close>

definition no_monitor :: monitor_input where
  "no_monitor = \<lparr> entry_time = \<lparr> tv_sec = 0, tv_usec = 0 \<rparr>, ticks = [] \<rparr>"

definition console_only :: "string \<Rightarrow> select_result" where
  "console_only raw =
     \<lparr> select_error = False, accept_result = None, client_fds = (\<lambda>fd. None),
       console_line = Some (raw, no_monitor) \<rparr>"

text \<open>The server state inside the result of the startup loader's loop.\<close>

fun loader_state :: "error + (bool \<times> int \<times> server) \<Rightarrow> server" where
  "loader_state (Inr (ok, n, st)) = st"
| "loader_state (Inl e) = final_state (Inl e)"

text \<open>The two checks the startup loader makes on a destination channel token.\<close>

definition in_token_valid :: "string \<Rightarrow> bool" where
  "in_token_valid d =
     ((starts_with_digit d \<or> prefixed_digit ''in'' d) \<and> channel_ok (channel_token ''in'' d))"

definition in_token_message :: "string \<Rightarrow> string" where
  "in_token_message d =
     (if \<not> starts_with_digit d \<and> \<not> prefixed_digit ''in'' d
      then ''Invalid input channel in routing file.'' @ [NL]
      else ''Invalid input channel value in routing file.'' @ or_all)"

text \<open>
  Sample states: the registry after twenty connections on sockets 4 to 23, then with the
  first of them gone and one more client connected; and two clients on sockets 4 and 5.
\<close>

definition connect_all :: server where
  "connect_all =
     foldl (\<lambda>s k. handle_new_connection (4 + int k) s) init_server [0..<MAX_CLIENTS]"

definition client21 :: server where
  "client21 = handle_new_connection 4 (disconnect 0 connect_all)"

definition two_clients :: server where
  "two_clients = handle_new_connection 5 (handle_new_connection 4 init_server)"

text \<open>
  The wire protocol. \<open>out_frame c msg\<close> is the frame \<open>out<c>: <msg>\<close> without its
  newline; \<open>payload msg\<close> is what the dispatcher keeps of the text after the colon: the
  text up to a carriage return, without leading blanks and tabs. It is \<open>msg\<close> itself
  when \<open>msg\<close> has no carriage return and does not start with a blank.
  \<open>in_message d A x\<close> is the envelope \<open>in<d> from client<A>: <x>\<close> with its newline.
\<close>

definition payload :: "string \<Rightarrow> string" where
  "payload msg = dropWhile (\<lambda>c. c = CHR '' '' \<or> c = TAB) (takeWhile (\<lambda>c. c \<noteq> CR) msg)"

definition out_frame :: "nat \<Rightarrow> string \<Rightarrow> string" where
  "out_frame c msg = ''out'' @ show_nat c @ '': '' @ msg"

definition in_message :: "nat \<Rightarrow> int \<Rightarrow> string \<Rightarrow> string" where
  "in_message d A x = ''in'' @ show_nat d @ '' from client'' @ show_int A @ '': '' @ x @ [NL]"

text \<open>
  Bytes that are zero or more complete frames: free of NUL, and ended by a newline when
  there are any.
\<close>

definition complete_frames :: "string \<Rightarrow> bool" where
  "complete_frames bs = (NUL \<notin> set bs \<and> (bs = [] \<or> last bs = NL))"

text \<open>The two clients after the console command \<open>route 1 0 2 0\<close>.\<close>

definition routed :: server where
  "routed = final_state (handle_console_input
     (route_text (show_int 1) (show_nat 0) (show_int 2) (show_nat 0)) no_monitor two_clients)"

text \<open>
  An identifier that was handed out and that no connected client holds any more; a step
  that leaves the registry as it is; a step that also leaves the routing table as it is.
\<close>

definition retired :: "int \<Rightarrow> server \<Rightarrow> bool" where
  "retired B st = (B < next_client_id st \<and> find_client_index st B = None)"

definition registry_kept :: "server \<Rightarrow> server \<Rightarrow> bool" where
  "registry_kept st st' = (clients st' = clients st \<and> next_client_id st' = next_client_id st)"

definition quiet :: "server \<Rightarrow> server \<Rightarrow> bool" where
  "quiet st st' = (registry_kept st st' \<and> routing st' = routing st)"

text \<open>
  A console line that reaches the \<open>route\<close> branch of \<open>handle_console_input\<close>: it starts
  with \<open>route\<close> and is not the listing command \<open>routes\<close>, which is answered before
  (none of the other commands answered before starts with \<open>route\<close>). And a run of the main
  loop without such a line.
\<close>

definition is_route_command :: "string \<Rightarrow> bool" where
  "is_route_command raw =
     (take 5 (trim_newline raw) = ''route'' \<and> trim_newline raw \<noteq> ''routes'')"

definition no_route_command :: "select_result list \<Rightarrow> bool" where
  "no_route_command rs =
     list_all (\<lambda>r. case console_line r of None \<Rightarrow> True | Some (raw, mi) \<Rightarrow> \<not> is_route_command raw) rs"

text \<open>Slot \<open>ib\<close> is the only active slot that holds the identifier \<open>B\<close>.\<close>

definition sole_owner :: "int \<Rightarrow> nat \<Rightarrow> server \<Rightarrow> bool" where
  "sole_owner B ib st =
     list_all (\<lambda>j. j = ib \<or> \<not> (active (clients st ! j) \<and> client_id (clients st ! j) = B))
       [0..<MAX_CLIENTS]"

text \<open>
  A sample run after client 2 of \<open>routed\<close> has gone: an iteration of the main loop in
  which a new connection arrives on socket 6 and the operator types \<open>list\<close>, and one in
  which the operator types \<open>routes\<close>.
\<close>

definition after_leave :: server where
  "after_leave = disconnect 1 routed"

definition later_run :: "select_result list" where
  "later_run =
     [\<lparr> select_error = False, accept_result = Some 6, client_fds = (\<lambda>fd. None),
        console_line = Some (''list'' @ [NL], no_monitor) \<rparr>,
      console_only (''routes'' @ [NL])]"

definition later :: server where
  "later = final_state (main_loop later_run after_leave)"

text \<open>
  The console line \<open>print k\<close>; a slot released by its client and given to the next
  connection; the registry holds only identifiers that were handed out; and the state
  \<open>routed\<close> after client 1 has sent \<open>out0: secret\<close>.
\<close>

definition print_text :: "int \<Rightarrow> string" where
  "print_text k = ''print '' @ show_int k @ [NL]"

definition reuse_slot :: "nat \<Rightarrow> int \<Rightarrow> server \<Rightarrow> server" where
  "reuse_slot i sock st =
     handle_new_connection sock (final_state (handle_client_input i Recv_closed st))"

definition ids_handed_out :: "server \<Rightarrow> bool" where
  "ids_handed_out st =
     list_all (\<lambda>j. \<not> active (clients st ! j) \<or> client_id (clients st ! j) < next_client_id st)
       [0..<MAX_CLIENTS]"

definition spoke :: server where
  "spoke = final_state (handle_client_input 0 (Recv_data (out_frame 0 ''secret'' @ [NL])) routed)"

text \<open>
  The texts written to log files, in order. A header row starts with \<open>timestamp,\<close>; a
  row is stamped for a clock origin and an iteration when it starts with the first column
  computed from that origin and the iteration's reading of \<open>gettimeofday\<close>.
\<close>

definition fwrites :: "io_event list \<Rightarrow> string list" where
  "fwrites es = concat (map (\<lambda>e. case e of Fwrite s \<Rightarrow> [s] | _ \<Rightarrow> []) es)"

definition header_like :: "string \<Rightarrow> bool" where
  "header_like row = (take 10 row = ''timestamp,'')"

definition stamped :: "timeval \<Rightarrow> tick \<Rightarrow> string \<Rightarrow> bool" where
  "stamped start t row =
     (let col = timestamp_column (timeval_delta (gettimeofday_now t) start)
      in take (length col) row = col)"

definition row_ok :: "timeval \<Rightarrow> tick list \<Rightarrow> string \<Rightarrow> bool" where
  "row_ok start ts row = (header_like row \<or> list_ex (\<lambda>t. stamped start t row) ts)"

text \<open>A step that writes nothing to a log file.\<close>

definition rows_kept :: "server \<Rightarrow> server \<Rightarrow> bool" where
  "rows_kept st st' = (fwrites (io_log st') = fwrites (io_log st))"

text \<open>
  A sample monitor session. Monitor mode is entered when the clock reads 10 s; the operator
  presses \<open>R\<close> in an iteration that runs when it reads 70 s, lets one more iteration pass
  and presses \<open>Q\<close>.
\<close>

definition quiet_tick :: tick where
  "quiet_tick =
     \<lparr> select_failed = False, readfds = (\<lambda>fd. None), key_read = None, time_sec = 0,
       strftime_text = [], fopen_ok = True, gettimeofday_now = \<lparr> tv_sec = 0, tv_usec = 0 \<rparr> \<rparr>"

definition toggle_tick :: tick where
  "toggle_tick =
     quiet_tick \<lparr> key_read := Some (CHR ''R''), time_sec := 70,
                  strftime_text := ''20261030_120110'',
                  gettimeofday_now := \<lparr> tv_sec = 70, tv_usec = 9 \<rparr> \<rparr>"

definition late_toggle :: monitor_input where
  "late_toggle =
     \<lparr> entry_time = \<lparr> tv_sec = 10, tv_usec = 0 \<rparr>,
       ticks = [toggle_tick,
                quiet_tick \<lparr> gettimeofday_now := \<lparr> tv_sec = 71, tv_usec = 3 \<rparr> \<rparr>,
                quiet_tick \<lparr> key_read := Some (CHR ''Q''),
                             gettimeofday_now := \<lparr> tv_sec = 72, tv_usec = 1 \<rparr> \<rparr>] \<rparr>"

definition after_monitor :: server where
  "after_monitor = final_state (monitor_mode 2 late_toggle two_clients)"

text \<open>The ten quoted empty fields of a row for two clients that have sent nothing.\<close>

definition empty_fields :: string where
  "empty_fields = join_commas (replicate 10 ([CHR 0x22] @ [CHR 0x22])) @ [NL]"

section \<open>Properties\<close>

subsection \<open>Strings, tokens and command lines\<close>

lemma emit_simps [simp]:
  "clients (emit e st) = clients st"
  "client_data (emit e st) = client_data st"
  "routing (emit e st) = routing st"
  "next_client_id (emit e st) = next_client_id st"
  "io_log (emit e st) = io_log st @ [e]"
  by (simp_all add: emit_def)

lemma strtok_from_token:
  "CHR '' '' \<notin> set t \<Longrightarrow>
   strtok_from cur (t @ CHR '' '' # rest) =
     (if rev cur @ t = [] then strtok_from [] rest else (rev cur @ t) # strtok_from [] rest)"
  by (induction t arbitrary: cur) auto

lemma strtok_from_last:
  "CHR '' '' \<notin> set t \<Longrightarrow> strtok_from cur t = (if rev cur @ t = [] then [] else [rev cur @ t])"
  by (induction t arbitrary: cur) auto

lemma plain_no_space: "plain t \<Longrightarrow> CHR '' '' \<notin> set t"
  by (auto simp: plain_def list_all_iff)

lemma plain_nonempty: "plain t \<Longrightarrow> t \<noteq> []"
  by (simp add: plain_def)

lemma strtok_all_route:
  assumes "plain a" "plain c" "plain b" "plain d"
  shows "strtok_all (''route '' @ a @ '' '' @ c @ '' '' @ b @ '' '' @ d) = [''route'', a, c, b, d]"
proof -
  have t: "strtok_from [] (a @ CHR '' '' # c @ CHR '' '' # b @ CHR '' '' # d) = [a, c, b, d]"
    using assms
    by (simp add: strtok_from_token strtok_from_last plain_no_space plain_nonempty)
  show ?thesis
    by (simp add: strtok_all_def t)
qed

lemma takeWhile_neq_append:
  "c \<notin> set s \<Longrightarrow> takeWhile (\<lambda>b. b \<noteq> c) (s @ ys) = s @ takeWhile (\<lambda>b. b \<noteq> c) ys"
  by (induction s) auto

lemma strchr_None: "c \<notin> set bs \<Longrightarrow> strchr bs c = None"
  by (auto simp: strchr_def c_str_def dest: set_takeWhileD)

lemma c_str_id: "NUL \<notin> set bs \<Longrightarrow> c_str bs = bs"
  by (auto simp: c_str_def takeWhile_eq_all_conv)

lemma strchr_append_NL:
  "NUL \<notin> set s \<Longrightarrow> NL \<notin> set s \<Longrightarrow> strchr (s @ NL # rest) NL = Some (length s)"
  by (simp add: strchr_def c_str_def takeWhile_neq_append)

lemma trim_newline_line:
  assumes "NUL \<notin> set s" "NL \<notin> set s" "CR \<notin> set s"
  shows "trim_newline (s @ [NL]) = s"
  using assms by (simp add: trim_newline_def strchr_append_NL strchr_None)

lemma trim_newline_plain:
  assumes "NUL \<notin> set s" "NL \<notin> set s" "CR \<notin> set s"
  shows "trim_newline s = s"
  using assms by (simp add: trim_newline_def strchr_None c_str_id)


lemma show_nat_digits: "set (show_nat n) \<subseteq> set ''0123456789''"
proof (induction n rule: show_nat.induct)
  case (1 n)
  have d: "''0123456789'' ! (k mod 10) \<in> set ''0123456789''" for k :: nat
    by (rule nth_mem) simp
  show ?case
  proof (cases "n < 10")
    case True
    then have "''0123456789'' ! n \<in> set ''0123456789''" by (intro nth_mem) simp
    with True show ?thesis by (subst show_nat.simps) simp
  next
    case False
    with 1 d [of n] show ?thesis by (subst show_nat.simps) simp
  qed
qed

lemma show_nat_nonempty: "show_nat n \<noteq> []"
  by (subst show_nat.simps) simp

lemma plain_show_nat: "plain (show_nat n)"
  using show_nat_digits [of n] show_nat_nonempty [of n]
  by (auto simp: plain_def list_all_iff)

lemma plain_show_int: "plain (show_int k)"
  using show_nat_digits [of "nat k"] show_nat_digits [of "nat (- k)"]
    show_nat_nonempty [of "nat k"] show_nat_nonempty [of "nat (- k)"]
  by (auto simp: plain_def list_all_iff show_int_def)

lemma plain_all: "plain ''all''"
  by (simp add: plain_def)

lemma find_None_iff: "List.find P xs = None \<longleftrightarrow> list_all (\<lambda>x. \<not> P x) xs"
  by (induction xs) auto

lemma plain_sets: "plain t \<Longrightarrow> NUL \<notin> set t \<and> NL \<notin> set t \<and> CR \<notin> set t \<and> CHR '' '' \<notin> set t"
  by (auto simp: plain_def list_all_iff)

lemma trim_route_text:
  assumes "plain a" "plain c" "plain b" "plain d"
  shows "trim_newline (route_text a c b d) = ''route '' @ a @ '' '' @ c @ '' '' @ b @ '' '' @ d"
proof -
  let ?s = "''route '' @ a @ '' '' @ c @ '' '' @ b @ '' '' @ d"
  have "NUL \<notin> set ?s" "NL \<notin> set ?s" "CR \<notin> set ?s"
    using assms by (auto dest: plain_sets)
  then have "trim_newline (?s @ [NL]) = ?s" by (rule trim_newline_line)
  then show ?thesis by (simp add: route_text_def)
qed

lemma handle_console_input_route:
  assumes "plain a" "plain c" "plain b" "plain d"
  shows "handle_console_input (route_text a c b d) mi st = console_route [''route'', a, c, b, d] st"
proof -
  let ?s = "''route '' @ a @ '' '' @ c @ '' '' @ b @ '' '' @ d"
  have t: "trim_newline (route_text a c b d) = ?s" using assms by (rule trim_route_text)
  have k: "strtok_all ?s = [''route'', a, c, b, d]" using assms by (rule strtok_all_route)
  have n: "a \<noteq> []" using assms(1) by (simp add: plain_def)
  obtain x xs where a: "a = x # xs" using n by (cases a) auto
  have sp: "x \<noteq> CHR '' ''" using assms(1) a by (simp add: plain_def)
  show ?thesis
    unfolding handle_console_input_def t Let_def k [symmetric]
    by (simp add: a sp)
qed

lemma poll_clients_none: "poll_clients (\<lambda>fd. None) is st = Inr st"
  by (induction "is" arbitrary: st) auto

lemma main_iteration_console:
  "main_iteration (console_only raw) st = handle_console_input raw no_monitor st"
  by (simp add: main_iteration_def console_only_def poll_clients_none)

lemma main_loop_console:
  "main_loop (map console_only raws) st =
     for_each (\<lambda>raw. handle_console_input raw no_monitor) raws st"
proof (induction raws arbitrary: st)
  case Nil
  show ?case by simp
next
  case (Cons raw raws)
  have e: "select_error (console_only raw) = False" by (simp add: console_only_def)
  show ?case
    by (simp add: e main_iteration_console Cons.IH split: sum.splits)
qed

lemma for_each_map: "for_each body (map f xs) st = for_each (\<lambda>x. body (f x)) xs st"
  by (induction xs arbitrary: st) (auto split: sum.splits)

lemma for_each_cong_set:
  "(\<And>x s. x \<in> set xs \<Longrightarrow> body x s = body' x s) \<Longrightarrow> for_each body xs st = for_each body' xs st"
  by (induction xs arbitrary: st) (auto split: sum.splits)

lemma for_each_routing:
  assumes "\<And>x s. x \<in> set xs \<Longrightarrow> routing (final_state (body x s)) = routing s"
  shows "routing (final_state (for_each body xs st)) = routing st"
  using assms
proof (induction xs arbitrary: st)
  case Nil
  show ?case by simp
next
  case (Cons x xs)
  show ?case
  proof (cases "body x st")
    case (Inl e)
    then show ?thesis using Cons.prems [of x st] by simp
  next
    case (Inr s1)
    have "routing (final_state (for_each body xs s1)) = routing s1"
      by (rule Cons.IH) (simp add: Cons.prems)
    moreover have "routing s1 = routing st" using Cons.prems [of x st] Inr by simp
    ultimately show ?thesis using Inr by simp
  qed
qed

lemma show_nat_small: "n < 10 \<Longrightarrow> show_nat n = [''0123456789'' ! n]"
  by (subst show_nat.simps) simp

lemma lt5_cases: "i < (5::nat) \<Longrightarrow> i = 0 \<or> i = 1 \<or> i = 2 \<or> i = 3 \<or> i = 4"
  by arith

lemma channel_token_show_nat:
  assumes "i < 5"
  shows "channel_token pre (show_nat i) = int i"
  using lt5_cases [OF assms]
  by (auto simp: show_nat_small channel_token_def starts_with_digit_def isdigit_def atoi_def
      strtol_def int_of_long_def INT_MAX_def LONG_MAX_def isspace_def digit_value_def)

lemma show_nat_not_all: "show_nat i \<noteq> ''all''"
  using show_nat_digits [of i] by auto

lemma show_int_not_all: "show_int i \<noteq> ''all''"
  using plain_show_int[of i] show_nat_digits [of "nat i"] show_nat_digits [of "nat (-i)"]
  by (auto simp: show_int_def split: if_splits)

lemma channel_ok_small: "i < 5 \<Longrightarrow> channel_ok (int i)"
  by (simp add: channel_ok_def CHANNELS_PER_APP_def)

lemma channel_indices_eq: "channel_indices = map int [0..<5]"
  by (simp add: channel_indices_def CHANNELS_PER_APP_def)

lemma console_route_all_all:
  "console_route [t0, a, ''all'', b, ''all''] st =
     for_each (\<lambda>i. route_command (atoi a) (int i) (atoi b) (int i)) [0..<5] st"
  by (simp add: console_route_def expand_route_def channel_indices_eq for_each_map)

lemma console_route_one:
  assumes "i < 5" "j < 5"
  shows "console_route [t0, a, show_nat i, b, show_nat j] st =
     route_command (atoi a) (int i) (atoi b) (int j) st"
  using assms
  by (simp add: console_route_def expand_route_def show_nat_not_all channel_token_show_nat
      channel_ok_small)

lemma console_route_all_fixed:
  assumes "d \<noteq> ''all''"
  shows "console_route [t0, a, ''all'', b, d] st =
     (if channel_ok (channel_token ''in'' d)
      then for_each (\<lambda>i. route_command (atoi a) (int i) (atoi b) (channel_token ''in'' d)) [0..<5] st
      else Inr (emit (Print (''Invalid input channel.'' @ or_all)) st))"
  using assms
  by (simp add: console_route_def expand_route_def channel_indices_eq for_each_map)

lemma console_route_one_fixed:
  assumes "i < 5" "d \<noteq> ''all''"
  shows "console_route [t0, a, show_nat i, b, d] st =
     (if channel_ok (channel_token ''in'' d)
      then route_command (atoi a) (int i) (atoi b) (channel_token ''in'' d) st
      else Inr (emit (Print (''Invalid input channel.'' @ or_all)) st))"
  using assms
  by (simp add: console_route_def expand_route_def show_nat_not_all channel_token_show_nat
      channel_ok_small)

lemma bulk_console_all_all:
  "main_loop [console_only (route_text (show_int A) ''all'' (show_int B) ''all'')] st =
   main_loop (map (\<lambda>i. console_only (route_text (show_int A) (show_nat i) (show_int B) (show_nat i)))
                [0..<CHANNELS_PER_APP]) st"
proof -
  let ?a = "show_int A" and ?b = "show_int B"
  have l: "main_loop [console_only raw] s = handle_console_input raw no_monitor s" for raw s
    using main_loop_console [of "[raw]" s] by (simp split: sum.splits)
  have m: "map (\<lambda>i. console_only (route_text ?a (show_nat i) ?b (show_nat i))) xs =
           map console_only (map (\<lambda>i. route_text ?a (show_nat i) ?b (show_nat i)) xs)" for xs
    by simp
  have "main_loop [console_only (route_text ?a ''all'' ?b ''all'')] st =
        for_each (\<lambda>i. route_command (atoi ?a) (int i) (atoi ?b) (int i)) [0..<5] st"
    unfolding l
    by (simp add: handle_console_input_route plain_show_int plain_all console_route_all_all)
  also have "\<dots> = for_each (\<lambda>i. handle_console_input
                 (route_text ?a (show_nat i) ?b (show_nat i)) no_monitor) [0..<5] st"
    by (rule for_each_cong_set)
       (simp add: handle_console_input_route plain_show_int plain_show_nat console_route_one)
  also have "\<dots> = main_loop (map (\<lambda>i. console_only
                 (route_text ?a (show_nat i) ?b (show_nat i))) [0..<CHANNELS_PER_APP]) st"
    unfolding m main_loop_console for_each_map CHANNELS_PER_APP_def ..
  finally show ?thesis .
qed

lemma main_loop_single:
  "main_loop [console_only raw] s = handle_console_input raw no_monitor s"
  using main_loop_console [of "[raw]" s] by (simp split: sum.splits)

lemma main_loop_console_map:
  "main_loop (map (\<lambda>i. console_only (f i)) xs) st =
     for_each (\<lambda>i. handle_console_input (f i) no_monitor) xs st"
proof -
  have "map (\<lambda>i. console_only (f i)) xs = map console_only (map f xs)" by simp
  then show ?thesis by (simp only: main_loop_console for_each_map)
qed

lemma bulk_console_all_fixed:
  "routing (final_state
     (main_loop [console_only (route_text (show_int A) ''all'' (show_int B) (show_int D))] st)) =
   routing (final_state
     (main_loop (map (\<lambda>i. console_only (route_text (show_int A) (show_nat i) (show_int B) (show_int D)))
                [0..<CHANNELS_PER_APP]) st))"
proof -
  let ?a = "show_int A" and ?b = "show_int B" and ?d = "show_int D"
  let ?f = "\<lambda>i. route_text ?a (show_nat i) ?b ?d"
  have lhs: "main_loop [console_only (route_text ?a ''all'' ?b ?d)] st =
             console_route [''route'', ?a, ''all'', ?b, ?d] st"
    unfolding main_loop_single
    by (simp add: handle_console_input_route plain_show_int plain_all)
  have rhs: "main_loop (map (\<lambda>i. console_only (?f i)) [0..<CHANNELS_PER_APP]) st =
             for_each (\<lambda>i. console_route [''route'', ?a, show_nat i, ?b, ?d]) [0..<5] st"
    unfolding main_loop_console_map CHANNELS_PER_APP_def
    by (rule for_each_cong_set)
       (simp add: handle_console_input_route plain_show_int plain_show_nat)
  show ?thesis
  proof (cases "channel_ok (channel_token ''in'' ?d)")
    case True
    have "for_each (\<lambda>i. console_route [''route'', ?a, show_nat i, ?b, ?d]) [0..<5] st =
          for_each (\<lambda>i. route_command (atoi ?a) (int i) (atoi ?b) (channel_token ''in'' ?d)) [0..<5] st"
      by (rule for_each_cong_set) (simp add: console_route_one_fixed show_int_not_all True)
    then show ?thesis
      unfolding lhs rhs by (simp add: console_route_all_fixed show_int_not_all True)
  next
    case False
    have "routing (final_state
            (for_each (\<lambda>i. console_route [''route'', ?a, show_nat i, ?b, ?d]) [0..<5] st)) = routing st"
      by (rule for_each_routing) (simp add: console_route_one_fixed show_int_not_all False)
    then show ?thesis
      unfolding lhs rhs by (simp add: console_route_all_fixed show_int_not_all False)
  qed
qed

lemma print_lines_simps [simp]:
  "clients (print_lines ls st) = clients st"
  "client_data (print_lines ls st) = client_data st"
  "routing (print_lines ls st) = routing st"
  "next_client_id (print_lines ls st) = next_client_id st"
  "io_log (print_lines ls st) = io_log st @ map Print ls"
  unfolding print_lines_def by (induction ls arbitrary: st) simp_all

lemma process_routing_file_routing:
  "routing (final_state (process_routing_file (Some raws) st)) =
   routing (loader_state (process_routing_lines raws (True, 0, st)))"
proof (cases "process_routing_lines raws (True, 0, st)")
  case (Inl e)
  then show ?thesis by (simp add: process_routing_file_def)
next
  case (Inr acc)
  obtain ok n s where "acc = (ok, n, s)" by (cases acc)
  with Inr show ?thesis
    using print_lines_simps(3) [of raws]
    by (simp add: process_routing_file_def print_lines_def)
qed

lemma process_routing_lines_state:
  assumes "\<And>x ok n s. x \<in> set xs \<Longrightarrow>
             (case process_routing_line (f x) (ok, n, s) of
                Inl e \<Rightarrow> body x s = Inl e
              | Inr (ok1, n1, s1) \<Rightarrow> body x s = Inr s1)"
  shows "loader_state (process_routing_lines (map f xs) (ok, n, st)) =
         final_state (for_each body xs st)"
  using assms
proof (induction xs arbitrary: ok n st)
  case Nil
  show ?case by simp
next
  case (Cons x xs)
  show ?case
  proof (cases "process_routing_line (f x) (ok, n, st)")
    case (Inl e)
    have "case process_routing_line (f x) (ok, n, st) of
            Inl e \<Rightarrow> body x st = Inl e | Inr (ok1, n1, s1) \<Rightarrow> body x st = Inr s1"
      by (rule Cons.prems) simp
    with Inl have "body x st = Inl e" by simp
    with Inl show ?thesis by simp
  next
    case (Inr acc)
    obtain ok1 n1 s1 where a: "acc = (ok1, n1, s1)" by (cases acc)
    have "case process_routing_line (f x) (ok, n, st) of
            Inl e \<Rightarrow> body x st = Inl e | Inr (ok1, n1, s1) \<Rightarrow> body x st = Inr s1"
      by (rule Cons.prems) simp
    with Inr a have b: "body x st = Inr s1" by simp
    have "loader_state (process_routing_lines (map f xs) (ok1, n1, s1)) =
          final_state (for_each body xs s1)"
      by (rule Cons.IH) (simp add: Cons.prems)
    with Inr a b show ?thesis by simp
  qed
qed

lemma process_routing_line_tokens:
  assumes "plain a" "plain c" "plain b" "plain d"
  shows "trim_newline (route_text a c b d) \<noteq> []"
    and "take 5 (trim_newline (route_text a c b d)) = ''route''"
    and "strtok_all (trim_newline (route_text a c b d)) = [''route'', a, c, b, d]"
proof -
  let ?s = "''route '' @ a @ '' '' @ c @ '' '' @ b @ '' '' @ d"
  have t: "trim_newline (route_text a c b d) = ?s" using assms by (rule trim_route_text)
  show "trim_newline (route_text a c b d) \<noteq> []" unfolding t by simp
  show "take 5 (trim_newline (route_text a c b d)) = ''route''" unfolding t by simp
  show "strtok_all (trim_newline (route_text a c b d)) = [''route'', a, c, b, d]"
    unfolding t using assms by (rule strtok_all_route)
qed

lemma file_line_all_all:
  assumes "plain a" "plain b"
  shows "process_routing_line (route_text a ''all'' b ''all'') (ok, n, st) =
     (case for_each (\<lambda>i. route_command_from_file (atoi a) (int i) (atoi b) (int i)) [0..<5] st of
        Inl e \<Rightarrow> Inl e | Inr s1 \<Rightarrow> Inr (ok, n + 1, s1))"
  using assms
  by (simp add: process_routing_line_def process_routing_line_tokens plain_all
      expand_route_def channel_indices_eq for_each_map)

lemma file_line_one:
  assumes "plain a" "plain b" "i < 5" "j < 5"
  shows "process_routing_line (route_text a (show_nat i) b (show_nat j)) (ok, n, st) =
     (case route_command_from_file (atoi a) (int i) (atoi b) (int j) st of
        Inl e \<Rightarrow> Inl e | Inr s1 \<Rightarrow> Inr (ok, n + 1, s1))"
proof -
  have sd: "starts_with_digit (show_nat k)" if "k < 5" for k
    using lt5_cases [OF that]
    by (auto simp: show_nat_small starts_with_digit_def isdigit_def)
  show ?thesis
    using assms
    by (simp add: process_routing_line_def process_routing_line_tokens plain_show_nat
        expand_route_def show_nat_not_all channel_token_show_nat channel_ok_small sd)
qed

lemma process_routing_lines_single:
  "process_routing_lines [raw] acc = process_routing_line raw acc"
  by (simp split: sum.splits)

lemma bulk_file_all_all:
  "routing (final_state (process_routing_file
      (Some [route_text (show_int A) ''all'' (show_int B) ''all'']) st)) =
   routing (final_state (process_routing_file
      (Some (map (\<lambda>i. route_text (show_int A) (show_nat i) (show_int B) (show_nat i))
               [0..<CHANNELS_PER_APP])) st))"
proof -
  let ?a = "show_int A" and ?b = "show_int B"
  let ?body = "\<lambda>i. route_command_from_file (atoi ?a) (int i) (atoi ?b) (int i)"
  have l: "loader_state (process_routing_lines [route_text ?a ''all'' ?b ''all''] (True, 0, st)) =
           final_state (for_each ?body [0..<5] st)"
    unfolding process_routing_lines_single
    by (simp add: file_line_all_all plain_show_int split: sum.splits)
  have r: "loader_state (process_routing_lines
             (map (\<lambda>i. route_text ?a (show_nat i) ?b (show_nat i)) [0..<5]) (True, 0, st)) =
           final_state (for_each ?body [0..<5] st)"
    by (rule process_routing_lines_state)
       (simp add: file_line_one plain_show_int split: sum.splits)
  show ?thesis
    unfolding process_routing_file_routing CHANNELS_PER_APP_def l r ..
qed

lemma file_line_all_fixed:
  assumes "plain a" "plain b" "plain d" "d \<noteq> ''all''"
  shows "process_routing_line (route_text a ''all'' b d) (ok, n, st) =
     (if in_token_valid d then
        (case for_each (\<lambda>i. route_command_from_file (atoi a) (int i) (atoi b)
                               (channel_token ''in'' d)) [0..<5] st of
           Inl e \<Rightarrow> Inl e | Inr s1 \<Rightarrow> Inr (ok, n + 1, s1))
      else Inr (False, n + 1, emit (Print (in_token_message d)) st))"
  using assms
  by (auto simp: process_routing_line_def process_routing_line_tokens plain_all
      expand_route_def channel_indices_eq for_each_map in_token_valid_def in_token_message_def
      routing_file_failure_def)

lemma file_line_one_fixed:
  assumes "plain a" "plain b" "plain d" "d \<noteq> ''all''" "i < 5"
  shows "process_routing_line (route_text a (show_nat i) b d) (ok, n, st) =
     (if in_token_valid d then
        (case route_command_from_file (atoi a) (int i) (atoi b) (channel_token ''in'' d) st of
           Inl e \<Rightarrow> Inl e | Inr s1 \<Rightarrow> Inr (ok, n + 1, s1))
      else Inr (False, n + 1, emit (Print (in_token_message d)) st))"
proof -
  have sd: "starts_with_digit (show_nat i)"
    using lt5_cases [OF assms(5)]
    by (auto simp: show_nat_small starts_with_digit_def isdigit_def)
  show ?thesis
    using assms
    by (auto simp: process_routing_line_def process_routing_line_tokens plain_show_nat
        expand_route_def show_nat_not_all channel_token_show_nat channel_ok_small sd
        in_token_valid_def in_token_message_def routing_file_failure_def)
qed

lemma bulk_file_all_fixed:
  "routing (final_state (process_routing_file
      (Some [route_text (show_int A) ''all'' (show_int B) (show_int D)]) st)) =
   routing (final_state (process_routing_file
      (Some (map (\<lambda>i. route_text (show_int A) (show_nat i) (show_int B) (show_int D))
               [0..<CHANNELS_PER_APP])) st))"
proof -
  let ?a = "show_int A" and ?b = "show_int B" and ?d = "show_int D"
  let ?body = "\<lambda>i s. if in_token_valid ?d
        then route_command_from_file (atoi ?a) (int i) (atoi ?b) (channel_token ''in'' ?d) s
        else Inr (emit (Print (in_token_message ?d)) s)"
  have r: "loader_state (process_routing_lines
             (map (\<lambda>i. route_text ?a (show_nat i) ?b ?d) [0..<5]) (True, 0, st)) =
           final_state (for_each ?body [0..<5] st)"
    by (rule process_routing_lines_state)
       (simp add: file_line_one_fixed plain_show_int show_int_not_all split: sum.splits)
  have l: "routing (loader_state (process_routing_lines [route_text ?a ''all'' ?b ?d] (True, 0, st))) =
           routing (final_state (for_each ?body [0..<5] st))"
  proof (cases "in_token_valid ?d")
    case True
    then show ?thesis
      unfolding process_routing_lines_single
      by (simp add: file_line_all_fixed plain_show_int show_int_not_all split: sum.splits)
  next
    case False
    have "routing (final_state (for_each ?body [0..<5] st)) = routing st"
      by (rule for_each_routing) (simp add: False)
    then show ?thesis
      unfolding process_routing_lines_single
      by (simp add: file_line_all_fixed plain_show_int show_int_not_all False)
  qed
  show ?thesis
    unfolding process_routing_file_routing CHANNELS_PER_APP_def r l ..
qed

subsection \<open>Reading numbers back, and the two setters\<close>



lemma digit_nth_isdigit: "k < 10 \<Longrightarrow> isdigit (''0123456789'' ! k)"
proof -
  assume "k < 10"
  then have "k = 0 \<or> k = 1 \<or> k = 2 \<or> k = 3 \<or> k = 4 \<or> k = 5 \<or> k = 6 \<or> k = 7 \<or> k = 8 \<or> k = 9"
    by arith
  then show ?thesis by (auto simp: isdigit_def)
qed

lemma digit_nth_value: "k < 10 \<Longrightarrow> digit_value (''0123456789'' ! k) = int k"
proof -
  assume "k < 10"
  then have "k = 0 \<or> k = 1 \<or> k = 2 \<or> k = 3 \<or> k = 4 \<or> k = 5 \<or> k = 6 \<or> k = 7 \<or> k = 8 \<or> k = 9"
    by arith
  then show ?thesis by (auto simp: digit_value_def)
qed

lemma atoi_digits_append:
  "list_all isdigit xs \<Longrightarrow> atoi_digits acc (xs @ ys) = atoi_digits (atoi_digits acc xs) ys"
  by (induction xs arbitrary: acc) auto

lemma show_nat_all_digits: "list_all isdigit (show_nat n)"
proof (induction n rule: show_nat.induct)
  case (1 n)
  show ?case
  proof (cases "n < 10")
    case True
    then show ?thesis by (subst show_nat.simps) (simp add: digit_nth_isdigit)
  next
    case False
    with 1 show ?thesis by (subst show_nat.simps) (simp add: digit_nth_isdigit)
  qed
qed

lemma atoi_digits_show_nat:
  "atoi_digits acc (show_nat n) = acc * 10 ^ length (show_nat n) + int n"
proof (induction n arbitrary: acc rule: show_nat.induct)
  case (1 n)
  show ?case
  proof (cases "n < 10")
    case True
    then show ?thesis
      by (subst (1 2) show_nat.simps) (simp add: digit_nth_isdigit digit_nth_value)
  next
    case False
    have m: "n mod 10 < 10" by simp
    have "atoi_digits acc (show_nat (n div 10) @ [''0123456789'' ! (n mod 10)]) =
          (acc * 10 ^ length (show_nat (n div 10)) + int (n div 10)) * 10 + int (n mod 10)"
      using False
      by (simp add: atoi_digits_append show_nat_all_digits 1 digit_nth_isdigit [OF m]
          digit_nth_value [OF m])
    also have "\<dots> = acc * 10 ^ (length (show_nat (n div 10)) + 1) + int n"
      by (simp add: algebra_simps zdiv_int zmod_int)
    finally show ?thesis
      using False by (subst (1 2) show_nat.simps) simp
  qed
qed

lemma show_nat_head: "\<exists>c cs. show_nat n = c # cs \<and> isdigit c"
  using show_nat_all_digits [of n] show_nat_nonempty [of n]
  by (cases "show_nat n") auto

lemma isdigit_not_space: "isdigit c \<Longrightarrow> \<not> isspace c \<and> c \<noteq> CHR ''-'' \<and> c \<noteq> CHR ''+''"
  by (auto simp: isdigit_def isspace_def)

lemma int_of_long_id: "is_int k \<Longrightarrow> int_of_long k = k"
  by (simp add: is_int_def int_of_long_def INT_MAX_def)

lemma strtol_show_int: "is_int k \<Longrightarrow> strtol (show_int k) = k"
proof (cases "k < 0")
  case True
  assume i: "is_int k"
  have "dropWhile isspace (CHR ''-'' # show_nat (nat (- k))) = CHR ''-'' # show_nat (nat (- k))"
    by (simp add: isspace_def)
  then show ?thesis
    using True i
    by (simp add: strtol_def show_int_def atoi_digits_show_nat is_int_def INT_MAX_def
        LONG_MAX_def)
next
  case False
  assume i: "is_int k"
  obtain c cs where s: "show_nat (nat k) = c # cs" and d: "isdigit c"
    using show_nat_head by blast
  have "atoi_digits 0 (c # cs) = k"
    using atoi_digits_show_nat [of 0 "nat k"] False by (simp add: s)
  then show ?thesis
    using False i isdigit_not_space [OF d]
    by (simp add: strtol_def show_int_def s is_int_def INT_MAX_def LONG_MAX_def
        del: atoi_digits.simps)
qed

lemma atoi_out_of_range: "atoi ''4294967298'' = 2" "atoi ''-2147483649'' = 2147483647"
  by code_simp+

lemma atoi_show_int: "is_int k \<Longrightarrow> atoi (show_int k) = k"
  by (simp add: atoi_def strtol_show_int int_of_long_id)

lemma is_int_small: "0 \<le> A \<Longrightarrow> A \<le> int MAX_CLIENTS \<Longrightarrow> is_int A"
  by (simp add: is_int_def INT_MAX_def MAX_CLIENTS_def)

lemma wf_client_id_is_int:
  "wf_server st \<Longrightarrow> i < MAX_CLIENTS \<Longrightarrow> is_int (client_id (clients st ! i))"
  by (simp add: wf_server_def list_all_length)

lemma returns_iff: "returns r \<longleftrightarrow> (\<exists>s. r = Inr s)"
  by (cases r) auto

lemma wf_routing_row:
  "wf_server st \<Longrightarrow> k \<le> MAX_CLIENTS \<Longrightarrow> length (routing st ! k) = CHANNELS_PER_APP"
  by (simp add: wf_server_def list_all_length)

lemma wf_routing_length: "wf_server st \<Longrightarrow> length (routing st) = MAX_CLIENTS + 1"
  by (simp add: wf_server_def)

lemma set_route_in_bounds:
  assumes "0 \<le> A" "A \<le> int MAX_CLIENTS" "0 \<le> c" "c < int CHANNELS_PER_APP"
  shows "set_route A c B d st =
     Inr (st \<lparr> routing := (routing st)
            [nat A := (routing st ! nat A) [nat c := \<lparr> in_client_id = B, in_channel = d \<rparr>]] \<rparr>)"
  using assms by (simp add: set_route_def)

lemma routing_update_lookup:
  assumes "wf_server st" "0 \<le> A" "A \<le> int MAX_CLIENTS" "0 \<le> c" "c < int CHANNELS_PER_APP"
  shows "(routing st) [nat A := (routing st ! nat A) [nat c := r]] ! nat A ! nat c = r"
proof -
  have a: "nat A < length (routing st)"
    using assms by (simp add: wf_routing_length)
  have "nat A \<le> MAX_CLIENTS" using assms by simp
  then have "length (routing st ! nat A) = CHANNELS_PER_APP"
    using assms(1) by (rule wf_routing_row [rotated])
  then have c: "nat c < length (routing st ! nat A)"
    using assms by simp
  show ?thesis using a c by simp
qed

lemma route_command_from_file_in_bounds:
  assumes "wf_server st" "0 \<le> A" "A \<le> int MAX_CLIENTS" "0 \<le> c" "c < int CHANNELS_PER_APP"
  shows "returns (route_command_from_file A c B d st)"
    and "routing (final_state (route_command_from_file A c B d st)) ! nat A ! nat c =
           \<lparr> in_client_id = B, in_channel = d \<rparr>"
  using assms
  by (simp_all add: route_command_from_file_def set_route_in_bounds routing_update_lookup)

lemma route_command_not_live:
  assumes "find_client_index st A = None \<or> find_client_index st B = None"
  shows "returns (route_command A c B d st)"
    and "routing (final_state (route_command A c B d st)) = routing st"
  using assms
  by (auto simp: route_command_def split: option.splits)

lemma route_command_live:
  assumes "wf_server st" "0 \<le> A" "A \<le> int MAX_CLIENTS" "0 \<le> c" "c < int CHANNELS_PER_APP"
    and "find_client_index st A \<noteq> None" "find_client_index st B \<noteq> None"
  shows "returns (route_command A c B d st)"
    and "routing (final_state (route_command A c B d st)) ! nat A ! nat c =
           \<lparr> in_client_id = B, in_channel = d \<rparr>"
  using assms
  by (auto simp: route_command_def set_route_in_bounds routing_update_lookup split: option.splits)

lemma file_single_line:
  assumes "c < 5" "d < 5" "is_int A" "is_int B"
  shows "process_routing_file
           (Some [route_text (show_int A) (show_nat c) (show_int B) (show_nat d)]) st =
         (case route_command_from_file A (int c) B (int d) st of
            Inl e \<Rightarrow> Inl e
          | Inr s1 \<Rightarrow>
              Inr (print_lines
                [''Routing file executed successfully. Contents of '' @ [CHR 0x27] @
                   ''route.rt'' @ [CHR 0x27] @ '':'' @ [NL],
                 route_text (show_int A) (show_nat c) (show_int B) (show_nat d)] s1))"
  using assms
  by (simp add: process_routing_file_def process_routing_lines_single file_line_one
      plain_show_int atoi_show_int print_lines_def split: sum.splits)

lemma console_single_line:
  assumes "c < 5" "d < 5" "is_int A" "is_int B"
  shows "handle_console_input (route_text (show_int A) (show_nat c) (show_int B) (show_nat d)) mi st =
         route_command A (int c) B (int d) st"
  using assms
  by (simp add: handle_console_input_route plain_show_int plain_show_nat console_route_one
      atoi_show_int)

subsection \<open>Lines and frames\<close>

lemma take_length_takeWhile: "take (length (takeWhile P xs)) xs = takeWhile P xs"
  by (induction xs) auto

lemma strchr_Some_iff:
  "strchr bs c = Some k \<longleftrightarrow> c \<in> set (c_str bs) \<and> k = length (takeWhile (\<lambda>b. b \<noteq> c) bs)"
  by (auto simp: strchr_def)

lemma cut_at_CR:
  assumes "NUL \<notin> set line"
  shows "(case strchr line CR of Some cr \<Rightarrow> take cr line | None \<Rightarrow> line) =
         takeWhile (\<lambda>b. b \<noteq> CR) line"
proof (cases "CR \<in> set line")
  case True
  then show ?thesis
    using assms by (simp add: strchr_def c_str_id take_length_takeWhile)
next
  case False
  then have e: "takeWhile (\<lambda>b. b \<noteq> CR) line = line"
    by (induction line) auto
  show ?thesis unfolding e using False by (simp add: strchr_None)
qed

lemma takeWhile_subset: "set (takeWhile P xs) \<subseteq> set xs"
  by (auto dest: set_takeWhileD)

lemma not_in_takeWhile: "c \<notin> set xs \<Longrightarrow> c \<notin> set (takeWhile P xs)"
  by (auto dest: set_takeWhileD)

lemma CR_not_in_cut: "CR \<notin> set (takeWhile (\<lambda>b. b \<noteq> CR) xs)"
  by (auto dest: set_takeWhileD)

lemma drop_past: "drop (Suc (length xs)) (xs @ y # ys) = ys"
  by (induction xs) auto

lemma process_lines_line:
  assumes "NUL \<notin> set line" "NL \<notin> set line"
  shows "process_lines i (line @ NL # rest) st =
     (case handle_frame i (takeWhile (\<lambda>b. b \<noteq> CR) line) st of
        Inl e \<Rightarrow> Inl e
      | Inr st1 \<Rightarrow> process_lines i rest st1)"
proof -
  have t: "trim_newline (takeWhile (\<lambda>b. b \<noteq> CR) line) = takeWhile (\<lambda>b. b \<noteq> CR) line"
    using assms by (intro trim_newline_plain not_in_takeWhile CR_not_in_cut)
  show ?thesis
    using assms
    by (subst process_lines.simps)
       (simp add: strchr_append_NL cut_at_CR t drop_past del: drop_append cong: sum.case_cong)
qed

lemma process_lines_no_line:
  assumes "NL \<notin> set (c_str buf)"
  shows "process_lines i buf st = Inr st"
  using assms by (subst process_lines.simps) (simp add: strchr_def)

lemma c_str_append_NUL: "NUL \<in> set xs \<Longrightarrow> c_str (xs @ ys) = c_str xs"
  by (induction xs) (auto simp: c_str_def)

lemma split_at_NL:
  assumes "NL \<in> set xs"
  shows "xs = takeWhile (\<lambda>b. b \<noteq> NL) xs @ NL # tl (dropWhile (\<lambda>b. b \<noteq> NL) xs)"
proof -
  have "dropWhile (\<lambda>b. b \<noteq> NL) xs \<noteq> []" using assms by (simp add: dropWhile_eq_Nil_conv)
  moreover have "hd (dropWhile (\<lambda>b. b \<noteq> NL) xs) = NL"
    using assms hd_dropWhile [of "\<lambda>b. b \<noteq> NL" xs] calculation by auto
  ultimately have "dropWhile (\<lambda>b. b \<noteq> NL) xs = NL # tl (dropWhile (\<lambda>b. b \<noteq> NL) xs)"
    by (cases "dropWhile (\<lambda>b. b \<noteq> NL) xs") auto
  then show ?thesis
    using takeWhile_dropWhile_id [of "\<lambda>b. b \<noteq> NL" xs] by simp
qed

lemma process_lines_partial:
  assumes "NL \<notin> set partial" "frames = [] \<or> last frames = NL"
  shows "process_lines i (frames @ partial) st = process_lines i frames st"
  using assms(2)
proof (induction frames arbitrary: st rule: length_induct)
  case (1 frames)
  show ?case
  proof (cases "frames = []")
    case True
    have "NL \<notin> set (c_str partial)"
      using assms(1) by (simp add: c_str_def not_in_takeWhile)
    then show ?thesis
      using True by (simp add: process_lines_no_line c_str_def)
  next
    case False
    then have l: "last frames = NL" using 1(2) by simp
    then have nl: "NL \<in> set frames" using False last_in_set by fastforce
    show ?thesis
    proof (cases "NL \<in> set (c_str frames)")
      case True
      define line where "line = takeWhile (\<lambda>b. b \<noteq> NL) frames"
      define rest where "rest = tl (dropWhile (\<lambda>b. b \<noteq> NL) frames)"
      have f: "frames = line @ NL # rest"
        unfolding line_def rest_def using nl by (rule split_at_NL)
      have a: "NL \<notin> set line" unfolding line_def by (auto dest: set_takeWhileD)
      have "NUL \<notin> set line"
      proof
        assume "NUL \<in> set line"
        then have "c_str frames = c_str line" by (subst f) (simp add: c_str_append_NUL)
        with True a show False by (auto simp: c_str_def dest: set_takeWhileD)
      qed
      note b = this
      have r: "rest = [] \<or> last rest = NL" using l f by (cases "rest = []") auto
      have "length frames = length line + Suc (length rest)"
        using arg_cong [OF f, of length] by simp
      then have len: "length rest < length frames" by simp
      have ih: "process_lines i (rest @ partial) s = process_lines i rest s" for s
        using 1(1) len r by blast
      have "process_lines i (frames @ partial) st = process_lines i (line @ NL # (rest @ partial)) st"
        by (subst f) simp
      also have "\<dots> = (case handle_frame i (takeWhile (\<lambda>b. b \<noteq> CR) line) st of
                          Inl e \<Rightarrow> Inl e | Inr st1 \<Rightarrow> process_lines i rest st1)"
        by (simp add: process_lines_line [OF b a] ih cong: sum.case_cong)
      also have "\<dots> = process_lines i (line @ NL # rest) st"
        by (simp add: process_lines_line [OF b a])
      finally show ?thesis using f by simp
    next
      case False
      have "NUL \<in> set frames"
      proof (rule ccontr)
        assume "NUL \<notin> set frames"
        then have "c_str frames = frames" by (rule c_str_id)
        with False nl show False by simp
      qed
      then have "c_str (frames @ partial) = c_str frames" by (rule c_str_append_NUL)
      with False show ?thesis by (simp add: process_lines_no_line)
    qed
  qed
qed

lemma store_last_out_simps [simp]:
  "clients (store_last_out i ch msg st) = clients st"
  "routing (store_last_out i ch msg st) = routing st"
  "next_client_id (store_last_out i ch msg st) = next_client_id st"
  "io_log (store_last_out i ch msg st) = io_log st"
  by (simp_all add: store_last_out_def)

lemma store_last_in_simps [simp]:
  "clients (store_last_in i ch msg st) = clients st"
  "routing (store_last_in i ch msg st) = routing st"
  "next_client_id (store_last_in i ch msg st) = next_client_id st"
  "io_log (store_last_in i ch msg st) = io_log st"
  by (simp_all add: store_last_in_def)

lemma find_client_index_cong:
  "clients st' = clients st \<Longrightarrow> find_client_index st' cid = find_client_index st cid"
  by (simp add: find_client_index_def)

lemma find_client_index_store [simp]:
  "find_client_index (store_last_out i ch msg st) cid = find_client_index st cid"
  "find_client_index (store_last_in i ch msg st) cid = find_client_index st cid"
  "find_client_index (emit e st) cid = find_client_index st cid"
  by (simp_all add: find_client_index_def)

lemma last_out_store_last_out:
  assumes "i < length (client_data st)" "ch < length (last_out (client_data st ! i))"
  shows "last_out (client_data (store_last_out i ch msg st) ! i) ! ch = take (MAX_MSG_LENGTH - 1) msg"
  using assms by (simp add: store_last_out_def)

lemma last_out_store_last_in [simp]:
  "last_out (client_data (store_last_in j ch msg st) ! i) = last_out (client_data st ! i)"
  by (cases "j < length (client_data st)"; cases "i = j")
     (simp_all add: store_last_in_def list_update_beyond)

lemma last_out_final_handle_frame:
  assumes "i < length (client_data st)" "c < length (last_out (client_data st ! i))"
    and "out_channel line = int c" "c < CHANNELS_PER_APP"
  shows "last_out (client_data (final_state (handle_frame i line st)) ! i) ! c =
           take (MAX_MSG_LENGTH - 1) (message_text line)"
  using assms
  by (simp add: handle_frame_def Let_def last_out_store_last_out split: option.splits)

lemma out_frame_small: "c < 10 \<Longrightarrow> out_frame c msg = ''out'' @ [''0123456789'' ! c] @ '': '' @ msg"
  by (simp add: out_frame_def show_nat_small)

lemma out_channel_out_frame:
  assumes "c < 10"
  shows "out_channel (out_frame c msg) = int c"
  using assms
  by (simp add: out_frame_small out_channel_def digit_nth_isdigit digit_nth_value)

lemma digit_nth_not_colon: "k < 10 \<Longrightarrow> ''0123456789'' ! k \<noteq> CHR '':'' \<and> ''0123456789'' ! k \<noteq> NUL
    \<and> ''0123456789'' ! k \<noteq> CR \<and> ''0123456789'' ! k \<noteq> NL"
  using digit_nth_isdigit [of k] by (auto simp: isdigit_def)

lemma message_text_out_frame:
  assumes "c < 10"
  shows "message_text (out_frame c msg) = dropWhile (\<lambda>c. c = CHR '' '' \<or> c = TAB) msg"
  using assms digit_nth_not_colon [of c]
  by (simp add: out_frame_small message_text_def strchr_def c_str_def)

lemma cut_out_frame:
  assumes "c < 10"
  shows "takeWhile (\<lambda>b. b \<noteq> CR) (out_frame c msg) = out_frame c (takeWhile (\<lambda>b. b \<noteq> CR) msg)"
  using assms digit_nth_not_colon [of c]
  by (simp add: out_frame_small)

lemma out_frame_clean:
  assumes "c < 10" "NUL \<notin> set msg" "NL \<notin> set msg"
  shows "NUL \<notin> set (out_frame c msg)" "NL \<notin> set (out_frame c msg)"
  using assms digit_nth_not_colon [of c]
  by (auto simp: out_frame_small)

lemma process_lines_empty: "process_lines i [] st = Inr st"
  by (simp add: process_lines_no_line c_str_def)

lemma find_client_index_Some:
  assumes "find_client_index st cid = Some i"
  shows "i < MAX_CLIENTS" "active (clients st ! i)" "client_id (clients st ! i) = cid"
  using assms by (auto simp: find_client_index_def find_Some_iff)

lemma handle_frame_forward:
  assumes "out_channel line = int c" "c < CHANNELS_PER_APP"
    and "client_id (clients st ! i) = A" "0 \<le> A" "A \<le> int MAX_CLIENTS"
    and "routing st ! nat A ! c = \<lparr> in_client_id = B, in_channel = int d \<rparr>"
    and "0 \<le> B" "d < CHANNELS_PER_APP" "find_client_index st B = Some ib"
  shows "handle_frame i line st =
     Inr (store_last_in ib d (take 599 (in_message d A (message_text line)))
           (emit (Send (sockfd (clients st ! ib)) (take 599 (in_message d A (message_text line))))
             (store_last_out i c (message_text line) st)))"
  using assms
  by (simp add: handle_frame_def Let_def in_message_def show_int_def)

lemma handle_frame_dropped:
  assumes "out_channel line = int c" "c < CHANNELS_PER_APP"
    and "client_id (clients st ! i) = A" "0 \<le> A" "A \<le> int MAX_CLIENTS"
    and "find_client_index st (in_client_id (routing st ! nat A ! c)) = None"
  shows "handle_frame i line st = Inr (store_last_out i c (message_text line) st)"
  using assms
  by (simp add: handle_frame_def Let_def)

lemma show_nat_length_small: "n < 100 \<Longrightarrow> length (show_nat n) \<le> 2"
  by (subst show_nat.simps) (simp add: show_nat_small)

lemma show_int_length_small: "0 \<le> A \<Longrightarrow> A \<le> 20 \<Longrightarrow> length (show_int A) \<le> 2"
  using show_nat_length_small [of "nat A"] by (simp add: show_int_def)

lemma payload_length: "length (payload x) \<le> length x"
proof -
  have "length (payload x) \<le> length (takeWhile (\<lambda>c. c \<noteq> CR) x)"
    unfolding payload_def by (rule length_dropWhile_le)
  also have "\<dots> \<le> length x" by (rule length_takeWhile_le)
  finally show ?thesis .
qed

lemma route_command_installed:
  assumes "wf_server st" "find_client_index st A = Some ia" "find_client_index st B = Some ib"
    and "c < CHANNELS_PER_APP" "route_command A (int c) B dch st = Inr st1"
  shows "0 \<le> A" "A \<le> int MAX_CLIENTS" "clients st1 = clients st"
    "client_data st1 = client_data st"
    "routing st1 ! nat A ! c = \<lparr> in_client_id = B, in_channel = dch \<rparr>"
    "wf_server st1"
proof -
  have s: "\<exists>s. set_route A (int c) B dch st = Inr s"
    using assms(2,3,5) by (auto simp: route_command_def split: sum.splits)
  then show a: "0 \<le> A" "A \<le> int MAX_CLIENTS"
    by (auto simp: set_route_def split: if_splits)
  have ci: "0 \<le> int c" "int c < int CHANNELS_PER_APP" using assms(4) by simp_all
  have e: "st1 = emit (Print (''Routed client'' @ show_int A @ '' out'' @
                           show_int (int c) @ '' -> client'' @ show_int B @ '' in'' @
                           show_int dch @ [NL]))
              (st \<lparr> routing := (routing st)
                [nat A := (routing st ! nat A) [nat (int c) := \<lparr> in_client_id = B, in_channel = dch \<rparr>]] \<rparr>)"
    using assms(2,3,5) by (simp add: route_command_def set_route_in_bounds [OF a ci])
  show "clients st1 = clients st" "client_data st1 = client_data st"
    by (simp_all add: e)
  show "routing st1 ! nat A ! c = \<lparr> in_client_id = B, in_channel = dch \<rparr>"
    using routing_update_lookup [OF assms(1) a ci] by (simp add: e)
  show "wf_server st1"
    using assms(1) a
    by (auto simp: e wf_server_def list_all_length nth_list_update)
qed

lemma wf_two_clients: "wf_server two_clients"
  by code_simp

subsection \<open>What the operations leave unchanged\<close>

lemma quiet_refl [simp]: "quiet st st"
  by (simp add: quiet_def registry_kept_def)

lemma quiet_trans: "quiet a b \<Longrightarrow> quiet b c \<Longrightarrow> quiet a c"
  by (simp add: quiet_def registry_kept_def)

lemma registry_kept_refl [simp]: "registry_kept st st"
  by (simp add: registry_kept_def)

lemma registry_kept_trans: "registry_kept a b \<Longrightarrow> registry_kept b c \<Longrightarrow> registry_kept a c"
  by (simp add: registry_kept_def)

lemma quiet_simps [simp]:
  "quiet st (emit e st') = quiet st st'"
  "quiet st (store_last_out i ch msg st') = quiet st st'"
  "quiet st (store_last_in i ch msg st') = quiet st st'"
  "quiet st (print_lines ls st') = quiet st st'"
  by (simp_all add: quiet_def registry_kept_def)

lemma registry_kept_emit [simp]: "registry_kept st (emit e st') = registry_kept st st'"
  by (simp add: registry_kept_def)

lemma retired_kept: "registry_kept st st' \<Longrightarrow> retired B st' = retired B st"
  by (simp add: registry_kept_def retired_def find_client_index_def)

lemma handle_frame_quiet: "quiet st (final_state (handle_frame i line st))"
  by (simp add: handle_frame_def Let_def split: option.splits)

lemma process_lines_quiet: "quiet st (final_state (process_lines i buf st))"
proof (induction i buf st rule: process_lines.induct)
  case (1 i buf st)
  show ?case
  proof (cases "strchr buf NL")
    case None
    then show ?thesis by (subst process_lines.simps) simp
  next
    case (Some nl)
    define line where "line = trim_newline (case strchr (take nl buf) CR of
        Some cr \<Rightarrow> take cr (take nl buf) | None \<Rightarrow> take nl buf)"
    show ?thesis
    proof (cases "handle_frame i line st")
      case (Inl e)
      then have "process_lines i buf st = Inl e"
        using Some by (subst process_lines.simps) (simp add: line_def)
      then show ?thesis using handle_frame_quiet [of st i line] Inl by simp
    next
      case (Inr st1)
      then have p: "process_lines i buf st = process_lines i (drop (Suc nl) buf) st1"
        using Some by (subst process_lines.simps) (simp add: line_def)
      have "quiet st1 (final_state (process_lines i (drop (Suc nl) buf) st1))"
        using 1 [OF Some refl refl refl] Inr by (simp add: line_def)
      moreover have "quiet st st1" using handle_frame_quiet [of st i line] Inr by simp
      ultimately show ?thesis unfolding p by (rule quiet_trans [rotated])
    qed
  qed
qed

lemma nth_update_any: "(xs[i := x]) ! j = (if i = j \<and> i < length xs then x else xs ! j)"
  by (cases "i < length xs") (auto simp: nth_list_update list_update_beyond)

lemma find_client_index_None_iff:
  "find_client_index st B = None \<longleftrightarrow>
     (\<forall>j < MAX_CLIENTS. \<not> (active (clients st ! j) \<and> client_id (clients st ! j) = B))"
  by (auto simp: find_client_index_def find_None_iff list_all_iff)

lemma retired_disconnect: "retired B st \<Longrightarrow> retired B (disconnect i st)"
  by (auto simp: retired_def find_client_index_None_iff disconnect_def nth_update_any)

lemma routing_disconnect [simp]: "routing (disconnect i st) = routing st"
  by (simp add: disconnect_def)

lemma client_data_disconnect [simp]: "client_data (disconnect i st) = client_data st"
  by (simp add: disconnect_def)

lemma retired_handle_new_connection:
  "retired B st \<Longrightarrow> retired B (handle_new_connection s st)"
  by (auto simp: retired_def find_client_index_None_iff handle_new_connection_def Let_def
      nth_update_any split: option.splits)

lemma routing_handle_new_connection [simp]:
  "routing (handle_new_connection s st) = routing st"
  by (simp add: handle_new_connection_def Let_def split: option.splits)

lemma client_data_handle_new_connection [simp]:
  "client_data (handle_new_connection s st) = client_data st"
  by (simp add: handle_new_connection_def Let_def split: option.splits)

lemma handle_client_input_preserves:
  assumes q: "\<And>s s'. quiet s s' \<Longrightarrow> Q s \<Longrightarrow> Q s'"
    and d: "\<And>i s. Q s \<Longrightarrow> Q (disconnect i s)"
    and "Q st"
  shows "Q (final_state (handle_client_input i r st))"
proof -
  have "Q (final_state (process_lines i buf st))" for buf
    using q [OF process_lines_quiet [of st i buf]] assms(3) by simp
  then show ?thesis
    using assms(3) d by (simp add: handle_client_input_def split: recv_result.splits)
qed

lemma poll_clients_preserves:
  assumes q: "\<And>s s'. quiet s s' \<Longrightarrow> Q s \<Longrightarrow> Q s'"
    and d: "\<And>i s. Q s \<Longrightarrow> Q (disconnect i s)"
    and "Q st"
  shows "Q (final_state (poll_clients fds is st))"
  using assms(3)
proof (induction "is" arbitrary: st)
  case Nil
  then show ?case by simp
next
  case (Cons i "is")
  show ?case
  proof (cases "active (clients st ! i)")
    case False
    then show ?thesis using Cons by simp
  next
    case True
    show ?thesis
    proof (cases "fds (sockfd (clients st ! i))")
      case None
      then show ?thesis using Cons True by simp
    next
      case (Some r)
      have h: "Q (final_state (handle_client_input i r st))"
        using q d Cons.prems by (rule handle_client_input_preserves)
      show ?thesis
      proof (cases "handle_client_input i r st")
        case (Inl e)
        then show ?thesis using h True Some by simp
      next
        case (Inr st1)
        then have "Q st1" using h by simp
        then show ?thesis using Cons.IH True Some Inr by simp
      qed
    qed
  qed
qed

lemma for_each_invariant:
  assumes "\<And>x s s'. body x s = Inr s' \<Longrightarrow> P s \<Longrightarrow> P s'"
    and "for_each body xs st = Inr st'" and "P st"
  shows "P st'"
  using assms(2,3)
proof (induction xs arbitrary: st)
  case Nil
  then show ?case by simp
next
  case (Cons x xs)
  then obtain s1 where b: "body x st = Inr s1" and f: "for_each body xs s1 = Inr st'"
    by (auto split: sum.splits)
  have "P s1" using assms(1) [OF b Cons.prems(2)] .
  then show ?case using Cons.IH [OF f] by simp
qed

lemma set_route_kept: "set_route A c B d st = Inr st' \<Longrightarrow> registry_kept st st'"
  by (auto simp: set_route_def registry_kept_def split: if_splits)

lemma route_command_kept: "route_command A c B d st = Inr st' \<Longrightarrow> registry_kept st st'"
  by (auto simp: route_command_def split: option.splits sum.splits dest!: set_route_kept)

lemma expand_route_command_kept:
  assumes "expand_route route_command A oa fo B ia fi st = Inr st'"
  shows "registry_kept st st'"
proof -
  have k: "for_each (\<lambda>i. route_command (f i) (g i) (h i) (k i)) xs st = Inr st' \<Longrightarrow>
           registry_kept st st'" for f g h k and xs :: "int list"
    by (rule for_each_invariant [where P = "registry_kept st" and st = st])
       (auto dest: route_command_kept registry_kept_trans)
  show ?thesis
    using assms k [of "\<lambda>i. A" "\<lambda>i. i" "\<lambda>i. B" "\<lambda>i. i"]
      k [of "\<lambda>i. A" "\<lambda>i. i" "\<lambda>i. B" "\<lambda>i. fi"] k [of "\<lambda>i. A" "\<lambda>i. fo" "\<lambda>i. B" "\<lambda>i. i"]
    by (auto simp: expand_route_def split: if_splits dest: route_command_kept)
qed

lemma console_route_kept: "console_route toks st = Inr st' \<Longrightarrow> registry_kept st st'"
  by (auto simp: console_route_def Let_def split: list.splits if_splits
      dest: expand_route_command_kept)

lemma console_print_quiet: "quiet st (console_print toks st)"
  by (simp add: console_print_def Let_def split: list.splits option.splits)

lemma list_routes_quiet: "list_routes st = Inr st' \<Longrightarrow> quiet st st'"
proof -
  assume a: "list_routes st = Inr st'"
  have b: "list_routes_client cid s = Inr s' \<Longrightarrow> quiet s s'" for cid s s'
    by (auto simp: list_routes_client_def split: option.splits if_splits)
  have "quiet (emit (Print (''Routes:'' @ [NL])) st) st'"
    using a unfolding list_routes_def
    by (rule for_each_invariant [rotated]) (auto dest: b quiet_trans)
  then show ?thesis by (simp add: quiet_def registry_kept_def)
qed

lemma toggle_recording_quiet: "toggle_recording t m st = (m1, st1) \<Longrightarrow> quiet st st1"
  by (auto simp: toggle_recording_def Let_def split: if_splits)

lemma handle_key_quiet: "handle_key t m st = (m1, st1) \<Longrightarrow> quiet st st1"
  by (auto simp: handle_key_def split: option.splits if_splits dest: toggle_recording_quiet)

lemma record_row_quiet: "quiet st (record_row t m st)"
  by (simp add: record_row_def)

lemma monitor_tick_preserves:
  assumes q: "\<And>s s'. quiet s s' \<Longrightarrow> Q s \<Longrightarrow> Q s'"
    and d: "\<And>i s. Q s \<Longrightarrow> Q (disconnect i s)"
    and "monitor_tick fps t m st = Inr (m1, st1)" "Q st"
  shows "Q st1"
proof -
  obtain s1 where p: "poll_clients (readfds t) [0..<MAX_CLIENTS] st = Inr s1"
    using assms(3) by (auto simp: monitor_tick_def split: sum.splits)
  obtain m2 s2 where k: "handle_key t m s1 = (m2, s2)" by (cases "handle_key t m s1")
  have e: "st1 = print_lines (monitor_view fps m2 (record_row t m2 s2)) (record_row t m2 s2)"
    using assms(3) p k by (auto simp: monitor_tick_def Let_def)
  have "Q (final_state (poll_clients (readfds t) [0..<MAX_CLIENTS] st))"
    using q d assms(4) by (rule poll_clients_preserves)
  then have "Q s1" using p by simp
  then have "Q s2" using q [OF handle_key_quiet [OF k]] by simp
  moreover have "quiet s2 st1" by (simp add: e record_row_quiet)
  ultimately show ?thesis using q by blast
qed

lemma monitor_loop_preserves:
  assumes q: "\<And>s s'. quiet s s' \<Longrightarrow> Q s \<Longrightarrow> Q s'"
    and d: "\<And>i s. Q s \<Longrightarrow> Q (disconnect i s)"
    and "monitor_loop fps ts m st = Inr (left, m1, st1)" "Q st"
  shows "Q st1"
  using assms(3,4)
proof (induction ts arbitrary: m st)
  case Nil
  then show ?case by simp
next
  case (Cons t ts)
  show ?case
  proof (cases "quit m \<or> select_failed t")
    case True
    then show ?thesis using Cons.prems by (auto split: if_splits)
  next
    case False
    then obtain m2 s2 where k: "monitor_tick fps t m st = Inr (m2, s2)"
      and l: "monitor_loop fps ts m2 s2 = Inr (left, m1, st1)"
      using Cons.prems(1) by (auto split: sum.splits)
    have "Q s2" using q d k Cons.prems(2) by (rule monitor_tick_preserves)
    then show ?thesis using Cons.IH [OF l] by simp
  qed
qed

lemma monitor_mode_preserves:
  assumes q: "\<And>s s'. quiet s s' \<Longrightarrow> Q s \<Longrightarrow> Q s'"
    and d: "\<And>i s. Q s \<Longrightarrow> Q (disconnect i s)"
    and "monitor_mode fps mi st = Inr st1" "Q st"
  shows "Q st1"
proof -
  let ?m0 = "\<lparr> start_time = entry_time mi, recording = False, log_file = False,
                 log_filename = [], recorded_client_indices = [], quit = False \<rparr>"
  define st0 where "st0 = emit (Print (''Entering monitor mode at '' @ show_int fps @ '' FPS.'' @ [NL] @
                   ''Press '' @ [CHR 0x27] @ ''Q'' @ [CHR 0x27] @ '' to quit, '' @ [CHR 0x27] @
                   ''R'' @ [CHR 0x27] @ '' to toggle recording.'' @ [NL])) st"
  have "quiet st st0" by (simp add: st0_def)
  then have s0: "Q st0" using q assms(4) by blast
  note r = assms(3) [unfolded monitor_mode_def Let_def, folded st0_def]
  obtain left m s1 where l: "monitor_loop fps (ticks mi) ?m0 st0 = Inr (left, m, s1)"
    using r by (auto split: sum.splits)
  have s1: "Q s1" using q d l s0 by (rule monitor_loop_preserves)
  have "quiet s1 st1" using r l by (auto split: if_splits)
  then show ?thesis using q s1 by blast
qed

lemma handle_console_input_preserves:
  assumes q: "\<And>s s'. quiet s s' \<Longrightarrow> Q s \<Longrightarrow> Q s'"
    and d: "\<And>i s. Q s \<Longrightarrow> Q (disconnect i s)"
    and k: "\<And>s s'. is_route_command raw \<Longrightarrow> registry_kept s s' \<Longrightarrow> Q s \<Longrightarrow> Q s'"
    and "handle_console_input raw mi st = Inr st1" "Q st"
  shows "Q st1"
proof -
  have h: "quiet st (show_help st)" "quiet st (list_clients st)"
    by (simp_all add: show_help_def list_clients_def)
  have m: "monitor_mode fps mi st = Inr st1 \<Longrightarrow> Q st1" for fps
    using q d _ assms(5) by (rule monitor_mode_preserves)
  have r: "is_route_command raw \<Longrightarrow> console_route toks st = Inr st1 \<Longrightarrow> Q st1" for toks
    using k assms(5) console_route_kept by blast
  show ?thesis
    using assms(4)
    by (auto simp: handle_console_input_def Let_def assms(5) is_route_command_def
        split: if_splits
        intro: q [OF _ assms(5)] h console_print_quiet m r
        dest: list_routes_quiet)
qed

lemma main_loop_preserves:
  assumes q: "\<And>s s'. quiet s s' \<Longrightarrow> Q s \<Longrightarrow> Q s'"
    and d: "\<And>i s. Q s \<Longrightarrow> Q (disconnect i s)"
    and n: "\<And>k s. Q s \<Longrightarrow> Q (handle_new_connection k s)"
    and k: "\<And>r raw mi s s'. r \<in> set rs \<Longrightarrow> console_line r = Some (raw, mi) \<Longrightarrow>
               is_route_command raw \<Longrightarrow> registry_kept s s' \<Longrightarrow> Q s \<Longrightarrow> Q s'"
    and "main_loop rs st = Inr st1" "Q st"
  shows "Q st1"
  using k assms(5,6)
proof (induction rs arbitrary: st)
  case Nil
  then show ?case by simp
next
  case (Cons r rs)
  show ?case
  proof (cases "select_error r")
    case True
    then show ?thesis using Cons.prems by simp
  next
    case False
    then obtain s1 where i: "main_iteration r st = Inr s1" and l: "main_loop rs s1 = Inr st1"
      using Cons.prems(2) by (auto split: sum.splits)
    define s0 where "s0 = (case accept_result r of None \<Rightarrow> st | Some s \<Rightarrow> handle_new_connection s st)"
    have r0: "Q s0"
      using Cons.prems(3) n by (simp add: s0_def split: option.splits)
    obtain s2 where p: "poll_clients (client_fds r) [0..<MAX_CLIENTS] s0 = Inr s2"
      using i by (auto simp: main_iteration_def s0_def Let_def split: sum.splits)
    have "Q (final_state (poll_clients (client_fds r) [0..<MAX_CLIENTS] s0))"
      using q d r0 by (rule poll_clients_preserves)
    then have r2: "Q s2" using p by simp
    have "Q s1"
    proof (cases "console_line r")
      case None
      then show ?thesis using i p r2 by (simp add: main_iteration_def s0_def [symmetric] Let_def)
    next
      case (Some a)
      obtain raw mi where a: "a = (raw, mi)" by (cases a)
      have h: "handle_console_input raw mi s2 = Inr s1"
        using i p Some a by (simp add: main_iteration_def s0_def [symmetric] Let_def)
      have kk: "\<And>s s'. is_route_command raw \<Longrightarrow> registry_kept s s' \<Longrightarrow> Q s \<Longrightarrow> Q s'"
        using Cons.prems(1) [of r raw mi] Some a by simp
      show ?thesis using q d kk h r2 by (rule handle_console_input_preserves)
    qed
    moreover have "\<And>r raw mi s s'. r \<in> set rs \<Longrightarrow> console_line r = Some (raw, mi) \<Longrightarrow>
               is_route_command raw \<Longrightarrow> registry_kept s s' \<Longrightarrow> Q s \<Longrightarrow> Q s'"
      using Cons.prems(1) by (meson list.set_intros(2))
    ultimately show ?thesis using Cons.IH [OF _ l] by blast
  qed
qed

lemma retired_main_loop:
  assumes "main_loop rs st = Inr st1" "retired B st"
  shows "retired B st1"
proof (rule main_loop_preserves [where Q = "retired B", OF _ _ _ _ assms])
  show "\<And>s s'. quiet s s' \<Longrightarrow> retired B s \<Longrightarrow> retired B s'"
    by (auto simp: quiet_def retired_kept)
  show "\<And>i s. retired B s \<Longrightarrow> retired B (disconnect i s)" by (rule retired_disconnect)
  show "\<And>k s. retired B s \<Longrightarrow> retired B (handle_new_connection k s)"
    by (rule retired_handle_new_connection)
  show "\<And>r raw mi s s'. r \<in> set rs \<Longrightarrow> console_line r = Some (raw, mi) \<Longrightarrow>
         is_route_command raw \<Longrightarrow> registry_kept s s' \<Longrightarrow> retired B s \<Longrightarrow> retired B s'"
    by (simp add: retired_kept)
qed

lemma routing_main_loop:
  assumes "main_loop rs st = Inr st1" "no_route_command rs"
  shows "routing st1 = routing st"
proof -
  have "routing st1 = routing st"
  proof (rule main_loop_preserves [where Q = "\<lambda>s. routing s = routing st", OF _ _ _ _ assms(1)])
    show "\<And>s s'. quiet s s' \<Longrightarrow> routing s = routing st \<Longrightarrow> routing s' = routing st"
      by (simp add: quiet_def)
    show "\<And>r raw mi s s'. r \<in> set rs \<Longrightarrow> console_line r = Some (raw, mi) \<Longrightarrow>
         is_route_command raw \<Longrightarrow> registry_kept s s' \<Longrightarrow> routing s = routing st \<Longrightarrow> routing s' = routing st"
      using assms(2) by (auto simp: no_route_command_def list_all_iff)
  qed simp_all
  then show ?thesis .
qed

lemma retired_after_disconnect:
  assumes "find_client_index st B = Some ib" "B < next_client_id st" "sole_owner B ib st"
    and "wf_server st"
  shows "retired B (disconnect ib st)"
proof -
  have "ib < MAX_CLIENTS" using find_client_index_Some(1) [OF assms(1)] .
  then have i: "ib < length (clients st)" using assms(4) by (simp add: wf_server_def)
  have "\<not> (active (clients (disconnect ib st) ! j) \<and> client_id (clients (disconnect ib st) ! j) = B)"
    if "j < MAX_CLIENTS" for j
    using assms(3) that i
    by (cases "j = ib") (auto simp: sole_owner_def list_all_iff disconnect_def nth_update_any)
  then show ?thesis
    using assms(2) by (simp add: retired_def find_client_index_None_iff disconnect_def)
qed

subsection \<open>The print command and the lowest free slot\<close>

lemma handle_console_input_print:
  "handle_console_input (print_text k) mi st = Inr (console_print [''print'', show_int k] st)"
proof -
  let ?a = "show_int k"
  have p: "plain ?a" by (rule plain_show_int)
  have cl: "NUL \<notin> set (''print '' @ ?a)" "NL \<notin> set (''print '' @ ?a)" "CR \<notin> set (''print '' @ ?a)"
    using plain_sets [OF p] by auto
  have t: "trim_newline (print_text k) = ''print '' @ ?a"
    using trim_newline_line [OF cl] by (simp add: print_text_def)
  have "strtok_from [] ?a = [?a]"
    using plain_sets [OF p] plain_nonempty [OF p] by (simp add: strtok_from_last)
  then have k: "strtok_all (''print '' @ ?a) = [''print'', ?a]"
    by (simp add: strtok_all_def)
  obtain x xs where a: "?a = x # xs" using plain_nonempty [OF p] by (cases ?a) auto
  show ?thesis
    unfolding handle_console_input_def t Let_def k [symmetric]
    by (simp add: a)
qed

lemma find_first_upt:
  assumes "i < n" "P i" "\<And>j. j < i \<Longrightarrow> \<not> P j"
  shows "List.find P [0..<n] = Some i"
proof -
  have "\<exists>k<length [0..<n]. P ([0..<n] ! k) \<and> i = [0..<n] ! k \<and> (\<forall>j<k. \<not> P ([0..<n] ! j))"
    using assms by (intro exI [of _ i]) auto
  then show ?thesis by (simp only: find_Some_iff)
qed

lemma first_free_after_disconnect:
  assumes "wf_server st" "i < MAX_CLIENTS" "list_all (\<lambda>j. active (clients st ! j)) [0..<i]"
  shows "List.find (\<lambda>j. \<not> active (clients (disconnect i st) ! j)) [0..<MAX_CLIENTS] = Some i"
proof (rule find_first_upt)
  show "i < MAX_CLIENTS" by fact
  have l: "i < length (clients st)" using assms(1,2) by (simp add: wf_server_def)
  then show "\<not> active (clients (disconnect i st) ! i)" by (simp add: disconnect_def)
  show "\<not> \<not> active (clients (disconnect i st) ! j)" if "j < i" for j
    using that assms(3) by (simp add: disconnect_def list_all_iff)
qed

lemma reuse_slot_eq:
  assumes "wf_server st" "i < MAX_CLIENTS" "list_all (\<lambda>j. active (clients st ! j)) [0..<i]"
    and "0 \<le> sock"
  shows "clients (reuse_slot i sock st) =
           (clients st) [i := \<lparr> sockfd = sock, client_id = next_client_id st, active = True,
                                name = take 63 (''Client'' @ show_int (next_client_id st)) \<rparr>]"
    and "client_data (reuse_slot i sock st) = client_data st"
    and "routing (reuse_slot i sock st) = routing st"
    and "next_client_id (reuse_slot i sock st) = next_client_id st + 1"
  using assms(4) first_free_after_disconnect [OF assms(1-3)]
  by (simp_all add: reuse_slot_def handle_client_input_def handle_new_connection_def Let_def
      disconnect_def)

lemma find_client_index_reused:
  assumes "wf_server st" "i < MAX_CLIENTS" "list_all (\<lambda>j. active (clients st ! j)) [0..<i]"
    and "0 \<le> sock" "ids_handed_out st"
  shows "find_client_index (reuse_slot i sock st) (next_client_id st) = Some i"
  unfolding find_client_index_def
proof (rule find_first_upt)
  have l: "i < length (clients st)" using assms(1,2) by (simp add: wf_server_def)
  note c = reuse_slot_eq(1) [OF assms(1-4)]
  show "i < MAX_CLIENTS" by fact
  show "active (clients (reuse_slot i sock st) ! i) \<and>
        client_id (clients (reuse_slot i sock st) ! i) = next_client_id st"
    using l by (simp add: c)
  show "\<not> (active (clients (reuse_slot i sock st) ! j) \<and>
        client_id (clients (reuse_slot i sock st) ! j) = next_client_id st)" if "j < i" for j
  proof -
    have "j < MAX_CLIENTS" using that assms(2) by simp
    then have "\<not> active (clients st ! j) \<or> client_id (clients st ! j) < next_client_id st"
      using assms(5) by (simp add: ids_handed_out_def list_all_iff)
    then show ?thesis using that by (auto simp: c)
  qed
qed

subsection \<open>Rows written to the log\<close>

lemma fwrites_append [simp]: "fwrites (xs @ ys) = fwrites xs @ fwrites ys"
  by (simp add: fwrites_def)

lemma fwrites_simps [simp]:
  "fwrites [] = []"
  "fwrites (Fwrite s # es) = s # fwrites es"
  "fwrites (Send fd s # es) = fwrites es"
  "fwrites (Close fd # es) = fwrites es"
  "fwrites (Print s # es) = fwrites es"
  "fwrites (Fopen s # es) = fwrites es"
  "fwrites (Fclose # es) = fwrites es"
  by (simp_all add: fwrites_def)

lemma fwrites_map_Print [simp]: "fwrites (map Print ls) = []"
  by (induction ls) simp_all

lemma rows_kept_refl [simp]: "rows_kept st st"
  by (simp add: rows_kept_def)

lemma rows_kept_trans: "rows_kept a b \<Longrightarrow> rows_kept b c \<Longrightarrow> rows_kept a c"
  by (simp add: rows_kept_def)

lemma handle_frame_rows: "rows_kept st (final_state (handle_frame i line st))"
  by (simp add: handle_frame_def Let_def rows_kept_def split: option.splits)

lemma process_lines_rows: "rows_kept st (final_state (process_lines i buf st))"
proof (induction i buf st rule: process_lines.induct)
  case (1 i buf st)
  show ?case
  proof (cases "strchr buf NL")
    case None
    then show ?thesis by (subst process_lines.simps) simp
  next
    case (Some nl)
    define line where "line = trim_newline (case strchr (take nl buf) CR of
        Some cr \<Rightarrow> take cr (take nl buf) | None \<Rightarrow> take nl buf)"
    show ?thesis
    proof (cases "handle_frame i line st")
      case (Inl e)
      then have "process_lines i buf st = Inl e"
        using Some by (subst process_lines.simps) (simp add: line_def)
      then show ?thesis using handle_frame_rows [of st i line] Inl by simp
    next
      case (Inr st1)
      then have p: "process_lines i buf st = process_lines i (drop (Suc nl) buf) st1"
        using Some by (subst process_lines.simps) (simp add: line_def)
      have "rows_kept st1 (final_state (process_lines i (drop (Suc nl) buf) st1))"
        using 1 [OF Some refl refl refl] Inr by (simp add: line_def)
      moreover have "rows_kept st st1" using handle_frame_rows [of st i line] Inr by simp
      ultimately show ?thesis unfolding p by (rule rows_kept_trans [rotated])
    qed
  qed
qed

lemma handle_client_input_rows: "rows_kept st (final_state (handle_client_input i r st))"
  using process_lines_rows [of st i]
  by (auto simp: handle_client_input_def disconnect_def rows_kept_def split: recv_result.splits)

lemma poll_clients_rows: "rows_kept st (final_state (poll_clients fds is st))"
proof (induction "is" arbitrary: st)
  case Nil
  show ?case by simp
next
  case (Cons i "is")
  show ?case
  proof (cases "active (clients st ! i)")
    case False
    then show ?thesis using Cons by simp
  next
    case True
    show ?thesis
    proof (cases "fds (sockfd (clients st ! i))")
      case None
      then show ?thesis using Cons True by simp
    next
      case (Some r)
      show ?thesis
      proof (cases "handle_client_input i r st")
        case (Inl e)
        then show ?thesis using handle_client_input_rows [of st i r] True Some by simp
      next
        case (Inr st1)
        then have "rows_kept st st1" using handle_client_input_rows [of st i r] by simp
        then show ?thesis
          using Cons [of st1] True Some Inr by (auto intro: rows_kept_trans)
      qed
    qed
  qed
qed

lemma header_row_like: "header_like (header_row st idxs)"
  by (simp add: header_like_def header_row_def)

lemma data_row_stamped: "stamped start t (data_row start (gettimeofday_now t) st idxs)"
  by (simp add: stamped_def data_row_def Let_def)

lemma toggle_recording_rows:
  assumes "toggle_recording t m st = (m1, st1)"
  shows "start_time m1 = start_time m"
    and "\<exists>new. fwrites (io_log st1) = fwrites (io_log st) @ new \<and> list_all header_like new"
  using assms
  by (auto simp: toggle_recording_def Let_def header_row_like split: if_splits)

lemma handle_key_rows:
  assumes "handle_key t m st = (m1, st1)"
  shows "start_time m1 = start_time m"
    and "\<exists>new. fwrites (io_log st1) = fwrites (io_log st) @ new \<and> list_all header_like new"
  using assms toggle_recording_rows [of t m st m1 st1]
  by (auto simp: handle_key_def split: option.splits if_splits)

lemma record_row_rows:
  "\<exists>new. fwrites (io_log (record_row t m st)) = fwrites (io_log st) @ new \<and>
         list_all (stamped (start_time m) t) new"
  by (simp add: record_row_def data_row_stamped)

lemma row_ok_mono:
  "list_all (row_ok start ts) rows \<Longrightarrow> list_all (row_ok start (t # ts)) rows"
  by (auto simp: row_ok_def list_all_iff)

lemma monitor_tick_rows:
  assumes "monitor_tick fps t m st = Inr (m1, st1)"
  shows "start_time m1 = start_time m"
    and "\<exists>new. fwrites (io_log st1) = fwrites (io_log st) @ new \<and>
               list_all (row_ok (start_time m) [t]) new"
proof -
  obtain s1 where p: "poll_clients (readfds t) [0..<MAX_CLIENTS] st = Inr s1"
    using assms by (auto simp: monitor_tick_def split: sum.splits)
  obtain m2 s2 where k: "handle_key t m s1 = (m2, s2)" by (cases "handle_key t m s1")
  have e: "st1 = print_lines (monitor_view fps m2 (record_row t m2 s2)) (record_row t m2 s2)"
    and mm: "m1 = m2"
    using assms p k by (auto simp: monitor_tick_def Let_def)
  have r1: "fwrites (io_log s1) = fwrites (io_log st)"
    using poll_clients_rows [of st "readfds t" "[0..<MAX_CLIENTS]"] p by (simp add: rows_kept_def)
  show s: "start_time m1 = start_time m" using handle_key_rows(1) [OF k] mm by simp
  obtain n1 where n1: "fwrites (io_log s2) = fwrites (io_log s1) @ n1" "list_all header_like n1"
    using handle_key_rows(2) [OF k] by blast
  obtain n2 where n2: "fwrites (io_log (record_row t m2 s2)) = fwrites (io_log s2) @ n2"
      "list_all (stamped (start_time m2) t) n2"
    using record_row_rows [of t m2 s2] by blast
  have "fwrites (io_log st1) = fwrites (io_log st) @ (n1 @ n2)"
    by (simp add: e n1 n2 r1)
  moreover have "list_all (row_ok (start_time m) [t]) (n1 @ n2)"
    using n1(2) n2(2) s mm by (auto simp: row_ok_def list_all_iff)
  ultimately show "\<exists>new. fwrites (io_log st1) = fwrites (io_log st) @ new \<and>
               list_all (row_ok (start_time m) [t]) new" by blast
qed

lemma monitor_loop_rows:
  assumes "monitor_loop fps ts m st = Inr (left, m1, st1)"
  shows "\<exists>new. fwrites (io_log st1) = fwrites (io_log st) @ new \<and>
               list_all (row_ok (start_time m) ts) new"
  using assms
proof (induction ts arbitrary: m st)
  case Nil
  then show ?case by simp
next
  case (Cons t ts)
  show ?case
  proof (cases "quit m \<or> select_failed t")
    case True
    then show ?thesis using Cons.prems by (auto split: if_splits)
  next
    case False
    then obtain m2 s2 where k: "monitor_tick fps t m st = Inr (m2, s2)"
      and l: "monitor_loop fps ts m2 s2 = Inr (left, m1, st1)"
      using Cons.prems by (auto split: sum.splits)
    obtain n1 where n1: "fwrites (io_log s2) = fwrites (io_log st) @ n1"
        "list_all (row_ok (start_time m) [t]) n1"
      using monitor_tick_rows(2) [OF k] by blast
    obtain n2 where n2: "fwrites (io_log st1) = fwrites (io_log s2) @ n2"
        "list_all (row_ok (start_time m2) ts) n2"
      using Cons.IH [OF l] by blast
    have s: "start_time m2 = start_time m" using monitor_tick_rows(1) [OF k] .
    have "list_all (row_ok (start_time m) (t # ts)) (n1 @ n2)"
      using n1(2) n2(2) s by (auto simp: row_ok_def list_all_iff)
    moreover have "fwrites (io_log st1) = fwrites (io_log st) @ (n1 @ n2)"
      by (simp add: n1 n2)
    ultimately show ?thesis by blast
  qed
qed

lemma late_toggle_returns: "monitor_mode 2 late_toggle two_clients = Inr after_monitor"
  by code_simp

lemma late_toggle_rows:
  "fwrites (io_log after_monitor) =
     [''timestamp,client1_ch0,client1_ch1,client1_ch2,client1_ch3,client1_ch4,'' @
      ''client2_ch0,client2_ch1,client2_ch2,client2_ch3,client2_ch4'' @ [NL],
      [CHR 0x22] @ ''60.000009'' @ [CHR 0x22] @ '','' @ empty_fields,
      [CHR 0x22] @ ''61.000003'' @ [CHR 0x22] @ '','' @ empty_fields,
      [CHR 0x22] @ ''62.000001'' @ [CHR 0x22] @ '','' @ empty_fields]"
  by code_simp

lemma two_clients_no_rows: "fwrites (io_log two_clients) = []"
  by code_simp

subsection \<open>Several frames in one read\<close>

lemma complete_frames_empty [simp]: "complete_frames []"
  by (simp add: complete_frames_def)

lemma complete_frames_line:
  "NUL \<notin> set line \<Longrightarrow> complete_frames frames \<Longrightarrow> complete_frames (frames @ line @ [NL])"
  by (simp add: complete_frames_def)

lemma process_lines_append:
  assumes "complete_frames frames"
  shows "process_lines i (frames @ rest) st =
     (case process_lines i frames st of Inl e \<Rightarrow> Inl e | Inr st1 \<Rightarrow> process_lines i rest st1)"
  using assms
proof (induction frames arbitrary: st rule: length_induct)
  case (1 frames)
  show ?case
  proof (cases "frames = []")
    case True
    then show ?thesis by (simp add: process_lines_empty)
  next
    case False
    then have l: "last frames = NL" and z: "NUL \<notin> set frames"
      using 1(2) by (simp_all add: complete_frames_def)
    have nl: "NL \<in> set frames" using False l last_in_set by fastforce
    define line where "line = takeWhile (\<lambda>b. b \<noteq> NL) frames"
    define more where "more = tl (dropWhile (\<lambda>b. b \<noteq> NL) frames)"
    have f: "frames = line @ NL # more"
      unfolding line_def more_def using nl by (rule split_at_NL)
    have a: "NL \<notin> set line" unfolding line_def by (auto dest: set_takeWhileD)
    have b: "NUL \<notin> set line" using z unfolding line_def by (auto dest: set_takeWhileD)
    have "NUL \<notin> set more" using z by (subst (asm) f) simp
    moreover have "more = [] \<or> last more = NL" using l f by (cases "more = []") auto
    ultimately have r: "complete_frames more" by (simp add: complete_frames_def)
    have "length frames = length line + Suc (length more)"
      using arg_cong [OF f, of length] by simp
    then have len: "length more < length frames" by simp
    have ih: "process_lines i (more @ rest) s =
        (case process_lines i more s of Inl e \<Rightarrow> Inl e | Inr st1 \<Rightarrow> process_lines i rest st1)" for s
      using 1(1) len r by blast
    have "process_lines i (frames @ rest) st = process_lines i (line @ NL # (more @ rest)) st"
      by (subst f) simp
    also have "\<dots> = (case handle_frame i (takeWhile (\<lambda>b. b \<noteq> CR) line) st of
                        Inl e \<Rightarrow> Inl e
                      | Inr s \<Rightarrow> (case process_lines i more s of
                                    Inl e \<Rightarrow> Inl e | Inr st1 \<Rightarrow> process_lines i rest st1))"
      by (simp add: process_lines_line [OF b a] ih cong: sum.case_cong)
    also have "\<dots> = (case process_lines i (line @ NL # more) st of
                        Inl e \<Rightarrow> Inl e | Inr st1 \<Rightarrow> process_lines i rest st1)"
      by (simp add: process_lines_line [OF b a] split: sum.splits)
    finally show ?thesis using f by simp
  qed
qed

lemma handle_client_input_read:
  "bytes \<noteq> [] \<Longrightarrow> length bytes \<le> 511 \<Longrightarrow>
     handle_client_input i (Recv_data bytes) st = process_lines i bytes st"
  by (simp add: handle_client_input_def)

lemma process_lines_frame_at:
  assumes "c < 10" "NUL \<notin> set msg" "NL \<notin> set msg"
    and "complete_frames before" "process_lines i before st = Inr st1"
  shows "process_lines i (before @ out_frame c msg @ [NL]) st =
           handle_frame i (out_frame c (takeWhile (\<lambda>b. b \<noteq> CR) msg)) st1"
proof -
  have "process_lines i (out_frame c msg @ [NL]) st1 =
        handle_frame i (out_frame c (takeWhile (\<lambda>b. b \<noteq> CR) msg)) st1"
    using process_lines_line [OF out_frame_clean [OF assms(1-3)], of i "[]" st1]
    by (simp add: process_lines_empty cut_out_frame [OF assms(1)] split: sum.splits)
  then show ?thesis
    by (simp add: process_lines_append [OF assms(4)] assms(5))
qed

lemma handle_client_input_frame_at:
  assumes "c < 10" "NUL \<notin> set msg" "NL \<notin> set msg"
    and "complete_frames before" "process_lines i before st = Inr st1"
    and "length (before @ out_frame c msg @ [NL] @ rest) \<le> 511"
  shows "handle_client_input i (Recv_data (before @ out_frame c msg @ [NL])) st =
           handle_frame i (out_frame c (takeWhile (\<lambda>b. b \<noteq> CR) msg)) st1"
    and "handle_client_input i (Recv_data (before @ out_frame c msg @ [NL] @ rest)) st =
           (case handle_client_input i (Recv_data (before @ out_frame c msg @ [NL])) st of
              Inl e \<Rightarrow> Inl e
            | Inr st2 \<Rightarrow> process_lines i rest st2)"
proof -
  have l: "length (before @ out_frame c msg @ [NL]) \<le> 511" using assms(6) by simp
  have n: "before @ out_frame c msg @ [NL] \<noteq> []" by simp
  have h: "handle_client_input i (Recv_data (before @ out_frame c msg @ [NL])) st =
        process_lines i (before @ out_frame c msg @ [NL]) st"
    using n l by (rule handle_client_input_read)
  show "handle_client_input i (Recv_data (before @ out_frame c msg @ [NL])) st =
           handle_frame i (out_frame c (takeWhile (\<lambda>b. b \<noteq> CR) msg)) st1"
    unfolding h using assms(1-5) by (rule process_lines_frame_at)
  have cf: "complete_frames (before @ out_frame c msg @ [NL])"
    using complete_frames_line [OF out_frame_clean(1) [OF assms(1-3)] assms(4)] .
  have n2: "before @ out_frame c msg @ [NL] @ rest \<noteq> []" by simp
  have "handle_client_input i (Recv_data (before @ out_frame c msg @ [NL] @ rest)) st =
        process_lines i ((before @ out_frame c msg @ [NL]) @ rest) st"
    using handle_client_input_read [OF n2 assms(6)] by simp
  also have "\<dots> = (case process_lines i (before @ out_frame c msg @ [NL]) st of
              Inl e \<Rightarrow> Inl e
            | Inr st2 \<Rightarrow> process_lines i rest st2)"
    using cf by (rule process_lines_append)
  finally show "handle_client_input i (Recv_data (before @ out_frame c msg @ [NL] @ rest)) st =
           (case handle_client_input i (Recv_data (before @ out_frame c msg @ [NL])) st of
              Inl e \<Rightarrow> Inl e
            | Inr st2 \<Rightarrow> process_lines i rest st2)"
    unfolding h .
qed

lemma frame_payload_bound:
  assumes "c < 10" "length (before @ out_frame c msg @ [NL] @ rest) \<le> 511"
  shows "length msg \<le> 504"
  using assms by (simp add: out_frame_small)

lemma process_lines_invariant:
  assumes "\<And>j line s. Q s \<Longrightarrow> Q (final_state (handle_frame j line s))" and "Q st"
  shows "Q (final_state (process_lines i buf st))"
  using assms(2)
proof (induction i buf st rule: process_lines.induct)
  case (1 i buf st)
  show ?case
  proof (cases "strchr buf NL")
    case None
    then show ?thesis using 1(2) by (subst process_lines.simps) simp
  next
    case (Some nl)
    define line where "line = trim_newline (case strchr (take nl buf) CR of
        Some cr \<Rightarrow> take cr (take nl buf) | None \<Rightarrow> take nl buf)"
    have q: "Q (final_state (handle_frame i line st))" using 1(2) by (rule assms(1))
    show ?thesis
    proof (cases "handle_frame i line st")
      case (Inl e)
      then have "process_lines i buf st = Inl e"
        using Some by (subst process_lines.simps) (simp add: line_def)
      then show ?thesis using q Inl by simp
    next
      case (Inr st1)
      then have p: "process_lines i buf st = process_lines i (drop (Suc nl) buf) st1"
        using Some by (subst process_lines.simps) (simp add: line_def)
      have "Q st1" using q Inr by simp
      then have "Q (final_state (process_lines i (drop (Suc nl) buf) st1))"
        using 1(1) [OF Some refl refl refl] Inr by (simp add: line_def)
      then show ?thesis unfolding p .
    qed
  qed
qed

lemma wf_server_store_last_out: "wf_server st \<Longrightarrow> wf_server (store_last_out i ch msg st)"
  by (auto simp: wf_server_def store_last_out_def list_all_length nth_update_any)

lemma wf_server_store_last_in: "wf_server st \<Longrightarrow> wf_server (store_last_in i ch msg st)"
  by (auto simp: wf_server_def store_last_in_def list_all_length nth_update_any)

lemma wf_server_emit [simp]: "wf_server (emit e st) = wf_server st"
  by (simp add: wf_server_def emit_def)

lemma handle_frame_wf: "wf_server st \<Longrightarrow> wf_server (final_state (handle_frame i line st))"
  by (simp add: handle_frame_def Let_def wf_server_store_last_out wf_server_store_last_in
      split: option.splits)

lemma process_lines_wf: "wf_server st \<Longrightarrow> wf_server (final_state (process_lines i buf st))"
  by (rule process_lines_invariant [where Q = wf_server]) (rule handle_frame_wf)

lemma process_lines_kept:
  assumes "process_lines i buf st = Inr st1"
  shows "clients st1 = clients st" "routing st1 = routing st"
    "next_client_id st1 = next_client_id st"
  using process_lines_quiet [of st i buf] assms
  by (simp_all add: quiet_def registry_kept_def)

subsection \<open>C1: routing correctness\<close>

text \<open>
  C1, as amended. Let \<open>A\<close> and \<open>B\<close> be connected clients (identifiers are positive),
  \<open>c\<close> and \<open>d\<close> channels in \<open>[0, 5)\<close>, and let the console command \<open>route A c B d\<close>
  have succeeded. Take a complete frame \<open>out<c>: X\<close> at any place of a read from \<open>A\<close>:
  after the complete frames \<open>before\<close>, which the loop has dispatched, and before the
  bytes \<open>rest\<close>, complete frames or not. The loop dispatches the frame without a fault;
  what the frame adds to what the server has done to the outside world is one \<open>send\<close>,
  on \<open>B\<close>'s socket, of \<open>in<d> from client<A>: X\<close> and a newline (\<open>X\<close> without
  leading blanks and cut at a carriage return); \<open>B\<close>'s most recent input on channel
  \<open>d\<close> is then the first \<open>MAX_MSG_LENGTH - 1 = 511\<close> bytes of the text that was sent;
  and the longer read goes through that very state and on with \<open>rest\<close>.
\<close>

theorem routing_correctness:
  assumes "wf_server st"
    and "find_client_index st A = Some ia" and "find_client_index st B = Some ib" and "0 < B"
    and "c < CHANNELS_PER_APP" and "d < CHANNELS_PER_APP"
    and "handle_console_input
           (route_text (show_int A) (show_nat c) (show_int B) (show_nat d)) mi st = Inr st1"
    and "NUL \<notin> set X" and "NL \<notin> set X"
    and "complete_frames before"
    and "length (before @ out_frame c X @ [NL] @ rest) \<le> 511"
    and "process_lines ia before st1 = Inr st2"
  shows "returns (handle_client_input ia (Recv_data (before @ out_frame c X @ [NL])) st1)
    \<and> io_log (final_state
          (handle_client_input ia (Recv_data (before @ out_frame c X @ [NL])) st1)) =
        io_log st2 @ [Send (sockfd (clients st1 ! ib)) (in_message d A (payload X))]
    \<and> last_in (client_data (final_state
          (handle_client_input ia (Recv_data (before @ out_frame c X @ [NL])) st1)) ! ib) ! d =
        take (MAX_MSG_LENGTH - 1) (in_message d A (payload X))
    \<and> handle_client_input ia (Recv_data (before @ out_frame c X @ [NL] @ rest)) st1 =
        (case handle_client_input ia (Recv_data (before @ out_frame c X @ [NL])) st1 of
           Inl e \<Rightarrow> Inl e
         | Inr st3 \<Rightarrow> process_lines ia rest st3)"
proof -
  have c: "c < 5" and d: "d < 5" using assms(5,6) by (simp_all add: CHANNELS_PER_APP_def)
  have c10: "c < 10" using c by simp
  have ia: "ia < MAX_CLIENTS" and ib: "ib < MAX_CLIENTS"
    using find_client_index_Some(1) [OF assms(2)] find_client_index_Some(1) [OF assms(3)] .
  have iA: "is_int A"
    using wf_client_id_is_int [OF assms(1) ia] find_client_index_Some(3) [OF assms(2)] by simp
  have iB: "is_int B"
    using wf_client_id_is_int [OF assms(1) ib] find_client_index_Some(3) [OF assms(3)] by simp
  have r: "route_command A (int c) B (int d) st = Inr st1"
    using assms(7) by (simp add: console_single_line [OF c d iA iB])
  note inst = route_command_installed [OF assms(1-3,5) r]
  note k = process_lines_kept [OF assms(12)]
  have w2: "wf_server st2"
    using process_lines_wf [OF inst(6), of ia before] assms(12) by simp
  have cid: "client_id (clients st2 ! ia) = A"
    using find_client_index_Some(3) [OF assms(2)] inst(3) k(1) by simp
  have fb: "find_client_index st2 B = Some ib"
    using assms(3) find_client_index_cong [OF inst(3)] find_client_index_cong [OF k(1)] by simp
  have rt: "routing st2 ! nat A ! c = \<lparr> in_client_id = B, in_channel = int d \<rparr>"
    using inst(5) k(2) by simp
  have b0: "0 \<le> B" using assms(4) by simp
  have x: "length X \<le> 504" using c10 assms(11) by (rule frame_payload_bound)
  let ?line = "out_frame c (takeWhile (\<lambda>b. b \<noteq> CR) X)"
  have m: "message_text ?line = payload X"
    by (simp add: message_text_out_frame [OF c10] payload_def)
  have "length (in_message d A (payload X)) \<le> 599"
    using show_int_length_small [OF inst(1)] inst(2) payload_length [of X] x d
    by (simp add: in_message_def show_nat_small MAX_CLIENTS_def)
  then have t: "take 599 (in_message d A (payload X)) = in_message d A (payload X)"
    by simp
  note f = handle_client_input_frame_at [OF c10 assms(8,9,10,12,11)]
  have h: "handle_client_input ia (Recv_data (before @ out_frame c X @ [NL])) st1 =
     Inr (store_last_in ib d (in_message d A (payload X))
           (emit (Send (sockfd (clients st1 ! ib)) (in_message d A (payload X)))
             (store_last_out ia c (payload X) st2)))"
    unfolding f(1)
    using handle_frame_forward [OF out_channel_out_frame [OF c10] assms(5) cid inst(1,2) rt
        b0 assms(6) fb, of "takeWhile (\<lambda>b. b \<noteq> CR) X"]
    by (simp add: m t k(1))
  have len: "ib < length (client_data st2)"
    using w2 ib by (simp add: wf_server_def)
  have "length (last_in (client_data st2 ! ib)) = CHANNELS_PER_APP"
    using w2 len by (simp add: wf_server_def list_all_length)
  then have dl: "d < length (last_in (client_data st2 ! ib))" using assms(6) by simp
  have li: "last_in (client_data (store_last_in ib d m
              (emit e (store_last_out ia c x st2))) ! ib) ! d = take (MAX_MSG_LENGTH - 1) m"
    for m e x
    using len dl
    by (cases "ia = ib") (simp_all add: store_last_in_def store_last_out_def)
  have 1: "returns (handle_client_input ia (Recv_data (before @ out_frame c X @ [NL])) st1)"
    unfolding h by simp
  have 2: "io_log (final_state
          (handle_client_input ia (Recv_data (before @ out_frame c X @ [NL])) st1)) =
        io_log st2 @ [Send (sockfd (clients st1 ! ib)) (in_message d A (payload X))]"
    unfolding h by simp
  have 3: "last_in (client_data (final_state
          (handle_client_input ia (Recv_data (before @ out_frame c X @ [NL])) st1)) ! ib) ! d =
        take (MAX_MSG_LENGTH - 1) (in_message d A (payload X))"
    unfolding h by (simp add: li)
  show ?thesis using 1 2 3 f(2) by simp
qed

theorem routing_correctness_witness:
  "wf_server two_clients
   \<and> find_client_index two_clients 1 = Some 0 \<and> find_client_index two_clients 2 = Some 1
   \<and> handle_console_input (route_text (show_int 1) (show_nat 0) (show_int 2) (show_nat 0))
        no_monitor two_clients = Inr routed
   \<and> complete_frames (''out1: a'' @ [NL])
   \<and> process_lines 0 (''out1: a'' @ [NL]) routed = Inr (store_last_out 0 1 ''a'' routed)
   \<and> io_log (final_state (handle_client_input 0
         (Recv_data ((''out1: a'' @ [NL]) @ out_frame 0 ''hello'' @ [NL])) routed)) =
       io_log routed @ [Send 5 (''in0 from client1: hello'' @ [NL])]
   \<and> last_in (client_data (final_state (handle_client_input 0
         (Recv_data ((''out1: a'' @ [NL]) @ out_frame 0 ''hello'' @ [NL])) routed)) ! 1) ! 0 =
       ''in0 from client1: hello'' @ [NL]
   \<and> handle_client_input 0
        (Recv_data ((''out1: a'' @ [NL]) @ out_frame 0 ''hello'' @ [NL] @ ''out0: bye'' @ [NL]))
        routed =
      (case handle_client_input 0
              (Recv_data ((''out1: a'' @ [NL]) @ out_frame 0 ''hello'' @ [NL])) routed of
         Inl e \<Rightarrow> Inl e
       | Inr st3 \<Rightarrow> process_lines 0 (''out0: bye'' @ [NL]) st3)"
proof -
  have fa: "find_client_index two_clients 1 = Some 0" by code_simp
  have fb: "find_client_index two_clients 2 = Some 1" by code_simp
  have c: "(0::nat) < CHANNELS_PER_APP" by (simp add: CHANNELS_PER_APP_def)
  have h: "handle_console_input (route_text (show_int 1) (show_nat 0) (show_int 2) (show_nat 0))
        no_monitor two_clients = Inr routed" by code_simp
  have f: "complete_frames (''out1: a'' @ [NL])" by code_simp
  have b: "process_lines 0 (''out1: a'' @ [NL]) routed = Inr (store_last_out 0 1 ''a'' routed)"
    by code_simp
  have n: "length ((''out1: a'' @ [NL]) @ out_frame 0 ''hello'' @ [NL] @ ''out0: bye'' @ [NL])
             \<le> 511" by code_simp
  have s: "sockfd (clients routed ! 1) = 5" by code_simp
  have m: "in_message 0 1 (payload ''hello'') = ''in0 from client1: hello'' @ [NL]" by code_simp
  have t: "take (MAX_MSG_LENGTH - 1) (''in0 from client1: hello'' @ [NL]) =
           ''in0 from client1: hello'' @ [NL]" by code_simp
  note r = routing_correctness [OF wf_two_clients fa fb _ c c h _ _ f n b]
  show ?thesis
    using r wf_two_clients fa fb h f b
    unfolding s m t by simp
qed

text \<open>
  C1 as stated says that the same text is stored. For a payload of 500 bytes the text sent
  has 519 bytes; the cache keeps its first 511, without the end of the payload and without
  the newline.
\<close>

theorem routing_correctness_truncated:
  "io_log (final_state (handle_client_input 0
       (Recv_data (out_frame 0 (replicate 500 (CHR ''a'')) @ [NL])) routed)) =
     io_log routed @ [Send 5 (''in0 from client1: '' @ replicate 500 (CHR ''a'') @ [NL])]
   \<and> last_in (client_data (final_state (handle_client_input 0
       (Recv_data (out_frame 0 (replicate 500 (CHR ''a'')) @ [NL])) routed)) ! 1) ! 0 =
     ''in0 from client1: '' @ replicate 493 (CHR ''a'')
   \<and> last_in (client_data (final_state (handle_client_input 0
       (Recv_data (out_frame 0 (replicate 500 (CHR ''a'')) @ [NL])) routed)) ! 1) ! 0 \<noteq>
     ''in0 from client1: '' @ replicate 500 (CHR ''a'') @ [NL]"
  by code_simp

subsection \<open>C2: a partial frame is not kept for the next read\<close>

text \<open>
  C2, as amended. On each readiness event the dispatcher reads at most 511 bytes into a
  buffer that is local to the call and zeroed first, and acts only on the complete
  newline-terminated frames of that read: the bytes after the last newline are discarded,
  so a read that ends in a partial frame is handled exactly as the read without it. Nothing
  is carried to the next read.
\<close>

theorem partial_frame_discarded:
  assumes "NL \<notin> set partial" and "partial \<noteq> []"
    and "frames = [] \<or> last frames = NL"
    and "length (frames @ partial) \<le> 511"
  shows "handle_client_input i (Recv_data (frames @ partial)) st =
           (if frames = [] then Inr st else handle_client_input i (Recv_data frames) st)"
proof -
  have "process_lines i (frames @ partial) st = process_lines i frames st"
    using assms(1,3) by (rule process_lines_partial)
  moreover have "process_lines i [] st = Inr st"
    by (simp add: process_lines_no_line c_str_def)
  ultimately show ?thesis
    using assms(2,4) by (simp add: handle_client_input_def)
qed

theorem partial_frame_discarded_witness:
  "NL \<notin> set ''out1: b'' \<and> last (''out0: a'' @ [NL]) = NL
   \<and> handle_client_input 0 (Recv_data ((''out0: a'' @ [NL]) @ ''out1: b'')) two_clients =
     handle_client_input 0 (Recv_data (''out0: a'' @ [NL])) two_clients
   \<and> last_out (client_data (final_state
        (handle_client_input 0 (Recv_data (''out0: a'' @ [NL])) two_clients)) ! 0) =
     [''a'', [], [], [], []]"
proof -
  have v: "last_out (client_data (final_state
        (handle_client_input 0 (Recv_data (''out0: a'' @ [NL])) two_clients)) ! 0) =
     [''a'', [], [], [], []]" by code_simp
  show ?thesis
    using partial_frame_discarded [of "''out1: b''" "''out0: a'' @ [NL]" 0 two_clients] v
    by simp
qed

text \<open>
  C2 as stated fails: the frame \<open>out0: hello\<close> arriving as \<open>out0: hel\<close> and then
  \<open>lo\<close> with the newline leaves the server as it was, while the same frame in one read
  is recorded as the client's output on channel 0.
\<close>

theorem split_frame_lost:
  "handle_client_input 0 (Recv_data (''lo'' @ [NL]))
     (final_state (handle_client_input 0 (Recv_data ''out0: hel'') two_clients)) = Inr two_clients
   \<and> last_out (client_data (final_state
        (handle_client_input 0 (Recv_data (''out0: hello'' @ [NL])) two_clients)) ! 0) ! 0 = ''hello''
   \<and> last_out (client_data two_clients ! 0) ! 0 = []"
  by code_simp

subsection \<open>C3: who may set a route before the clients are connected\<close>

text \<open>
  C3, as amended. Channels are in \<open>[0, 5)\<close>, the source identifier is a row of the
  table (\<open>0..MAX_CLIENTS\<close>) and the destination identifier is any \<open>int\<close>. The startup
  loader, given the line \<open>route A c B d\<close>, installs the entry \<open>routing[A][c] = (B, d)\<close>
  whatever the registry holds, so also when neither identifier belongs to a connected
  client. The console command \<open>route A c B d\<close> is different by design: it installs the
  entry only when both \<open>A\<close> and \<open>B\<close> are found in the registry; otherwise all it does is
  print \<open>No such client\<close> with the first identifier it does not find, and the routing
  table stays as it was.
\<close>

theorem route_preconfiguration:
  assumes "wf_server st" and "0 \<le> A" and "A \<le> int MAX_CLIENTS" and "is_int B"
    and "c < CHANNELS_PER_APP" and "d < CHANNELS_PER_APP"
  shows "returns (process_routing_file
           (Some [route_text (show_int A) (show_nat c) (show_int B) (show_nat d)]) st)
    \<and> routing (final_state (process_routing_file
           (Some [route_text (show_int A) (show_nat c) (show_int B) (show_nat d)]) st)) ! nat A ! c =
        \<lparr> in_client_id = B, in_channel = int d \<rparr>
    \<and> returns (handle_console_input
           (route_text (show_int A) (show_nat c) (show_int B) (show_nat d)) mi st)
    \<and> (find_client_index st A = None \<longrightarrow>
          handle_console_input
            (route_text (show_int A) (show_nat c) (show_int B) (show_nat d)) mi st =
          Inr (emit (Print (''No such client '' @ show_int A @ [NL])) st))
    \<and> (find_client_index st A \<noteq> None \<and> find_client_index st B = None \<longrightarrow>
          handle_console_input
            (route_text (show_int A) (show_nat c) (show_int B) (show_nat d)) mi st =
          Inr (emit (Print (''No such client '' @ show_int B @ [NL])) st))
    \<and> (find_client_index st A = None \<or> find_client_index st B = None \<longrightarrow>
          routing (final_state (handle_console_input
            (route_text (show_int A) (show_nat c) (show_int B) (show_nat d)) mi st)) = routing st)
    \<and> (find_client_index st A \<noteq> None \<and> find_client_index st B \<noteq> None \<longrightarrow>
          routing (final_state (handle_console_input
            (route_text (show_int A) (show_nat c) (show_int B) (show_nat d)) mi st)) ! nat A ! c =
          \<lparr> in_client_id = B, in_channel = int d \<rparr>)"
proof -
  have c: "c < 5" and d: "d < 5" using assms by (simp_all add: CHANNELS_PER_APP_def)
  have ci: "0 \<le> int c" "int c < int CHANNELS_PER_APP" using assms by simp_all
  have iA: "is_int A" using assms(2,3) by (rule is_int_small)
  note fl = file_single_line [OF c d iA assms(4)]
  note cl = console_single_line [OF c d iA assms(4)]
  note f = route_command_from_file_in_bounds [OF assms(1-3) ci, of B "int d"]
  obtain s1 where r: "route_command_from_file A (int c) B (int d) st = Inr s1"
    using f(1) by (auto simp: returns_iff)
  have 1: "returns (process_routing_file
           (Some [route_text (show_int A) (show_nat c) (show_int B) (show_nat d)]) st)"
    by (simp add: fl r)
  have 2: "routing (final_state (process_routing_file
           (Some [route_text (show_int A) (show_nat c) (show_int B) (show_nat d)]) st)) ! nat A ! c =
        \<lparr> in_client_id = B, in_channel = int d \<rparr>"
    using f(2) by (simp add: fl r)
  show ?thesis
  proof (cases "find_client_index st A = None \<or> find_client_index st B = None")
    case True
    show ?thesis
      using 1 2 True route_command_not_live [OF True, of "int c" "int d"]
      by (auto simp: cl route_command_def split: option.splits)
  next
    case False
    then have l: "find_client_index st A \<noteq> None" "find_client_index st B \<noteq> None" by simp_all
    show ?thesis
      using 1 2 False route_command_live [OF assms(1-3) ci l, of "int d"]
      by (auto simp: cl)
  qed
qed

theorem route_preconfiguration_witness:
  "wf_server init_server \<and> (0::int) \<le> 1 \<and> (1::int) \<le> int MAX_CLIENTS \<and> is_int 2
   \<and> (0::nat) < CHANNELS_PER_APP
   \<and> find_client_index init_server 1 = None
   \<and> routing (final_state (process_routing_file
        (Some [route_text (show_int 1) (show_nat 0) (show_int 2) (show_nat 0)]) init_server)) ! nat 1 ! 0 =
        \<lparr> in_client_id = 2, in_channel = int 0 \<rparr>
   \<and> handle_console_input
        (route_text (show_int 1) (show_nat 0) (show_int 2) (show_nat 0)) no_monitor init_server =
      Inr (emit (Print (''No such client '' @ show_int 1 @ [NL])) init_server)
   \<and> routing (final_state (handle_console_input
        (route_text (show_int 1) (show_nat 0) (show_int 2) (show_nat 0)) no_monitor init_server)) =
      routing init_server"
proof -
  have w: "wf_server init_server" by code_simp
  have a: "(1::int) \<le> int MAX_CLIENTS" by (simp add: MAX_CLIENTS_def)
  have b: "is_int 2" by code_simp
  have c: "(0::nat) < CHANNELS_PER_APP" by (simp add: CHANNELS_PER_APP_def)
  have n: "find_client_index init_server 1 = None" by code_simp
  show ?thesis
    using route_preconfiguration [OF w _ a b c c, of no_monitor] w a b c n by simp
qed

text \<open>
  C3 as stated fails for the console: with no client connected, \<open>route 1 0 2 0\<close> answers
  \<open>No such client 1\<close> and the entry stays unset.
\<close>

theorem console_route_needs_live_clients:
  "handle_console_input (route_text ''1'' ''0'' ''2'' ''0'') no_monitor init_server =
     Inr (emit (Print (''No such client 1'' @ [NL])) init_server)
   \<and> routing (final_state
        (handle_console_input (route_text ''1'' ''0'' ''2'' ''0'') no_monitor init_server)) ! 1 ! 0 =
      \<lparr> in_client_id = - 1, in_channel = - 1 \<rparr>"
  by code_simp

subsection \<open>C4: the baseline of the recorded timestamps\<close>

text \<open>
  C4, as amended. \<open>monitor_mode\<close> reads the clock once, on entry, and the toggle key never
  resets that reading. Every row written to a log file during one call of \<open>monitor_mode\<close>
  is a header row or a data row whose first column is the time elapsed between the entry
  into monitor mode and the iteration that wrote the row, as seconds, a dot and six digits
  of microseconds, in double quotes. The first row of a session is therefore near zero only
  when recording is switched on right after monitor mode is entered.
\<close>

theorem recording_timestamp_baseline:
  assumes "monitor_mode fps mi st = Inr st1"
  shows "take (length (fwrites (io_log st))) (fwrites (io_log st1)) = fwrites (io_log st)
    \<and> list_all (row_ok (entry_time mi) (ticks mi))
        (drop (length (fwrites (io_log st))) (fwrites (io_log st1)))"
proof -
  let ?m0 = "\<lparr> start_time = entry_time mi, recording = False, log_file = False,
                 log_filename = [], recorded_client_indices = [], quit = False \<rparr>"
  define st0 where "st0 = emit (Print (''Entering monitor mode at '' @ show_int fps @ '' FPS.'' @ [NL] @
                   ''Press '' @ [CHR 0x27] @ ''Q'' @ [CHR 0x27] @ '' to quit, '' @ [CHR 0x27] @
                   ''R'' @ [CHR 0x27] @ '' to toggle recording.'' @ [NL])) st"
  have f0: "fwrites (io_log st0) = fwrites (io_log st)" by (simp add: st0_def)
  note r = assms [unfolded monitor_mode_def Let_def, folded st0_def]
  obtain left m s1 where l: "monitor_loop fps (ticks mi) ?m0 st0 = Inr (left, m, s1)"
    using r by (auto split: sum.splits)
  obtain new where n: "fwrites (io_log s1) = fwrites (io_log st0) @ new"
      "list_all (row_ok (entry_time mi) (ticks mi)) new"
    using monitor_loop_rows [OF l] by auto
  have "fwrites (io_log st1) = fwrites (io_log s1)"
    using r l by (auto split: if_splits)
  then have "fwrites (io_log st1) = fwrites (io_log st) @ new" by (simp add: n f0)
  then show ?thesis using n(2) by simp
qed

theorem recording_timestamp_baseline_witness:
  "monitor_mode 2 late_toggle two_clients = Inr after_monitor
   \<and> entry_time late_toggle = \<lparr> tv_sec = 10, tv_usec = 0 \<rparr>
   \<and> list_all (row_ok (entry_time late_toggle) (ticks late_toggle)) (fwrites (io_log after_monitor))
   \<and> fwrites (io_log after_monitor) ! 1 =
       [CHR 0x22] @ ''60.000009'' @ [CHR 0x22] @ '','' @ empty_fields"
  using recording_timestamp_baseline [OF late_toggle_returns] late_toggle_returns
    two_clients_no_rows late_toggle_rows
  by (simp add: late_toggle_def)

text \<open>
  C4 as stated takes the start of the recording session as the origin. In the sample
  session the key is pressed when \<open>time\<close> reads 70 and the first row is written when
  \<open>gettimeofday\<close> reads 70.000009: its first column is \<open>60.000009\<close>, the time since
  monitor mode was entered, and not \<open>0.000009\<close>.
\<close>

theorem first_row_counts_from_monitor_entry:
  "key_read (hd (ticks late_toggle)) = Some (CHR ''R'')
   \<and> time_sec (hd (ticks late_toggle)) = 70
   \<and> gettimeofday_now (hd (ticks late_toggle)) = \<lparr> tv_sec = 70, tv_usec = 9 \<rparr>
   \<and> monitor_mode 2 late_toggle two_clients = Inr after_monitor
   \<and> fwrites (io_log two_clients) = []
   \<and> fwrites (io_log after_monitor) ! 1 =
       [CHR 0x22] @ ''60.000009'' @ [CHR 0x22] @ '','' @ empty_fields
   \<and> timestamp_column (timeval_delta \<lparr> tv_sec = 70, tv_usec = 9 \<rparr>
                                      \<lparr> tv_sec = 70, tv_usec = 0 \<rparr>) =
       [CHR 0x22] @ ''0.000009'' @ [CHR 0x22]"
proof -
  have k: "key_read (hd (ticks late_toggle)) = Some (CHR ''R'')
      \<and> time_sec (hd (ticks late_toggle)) = 70
      \<and> gettimeofday_now (hd (ticks late_toggle)) = \<lparr> tv_sec = 70, tv_usec = 9 \<rparr>"
    by (simp add: late_toggle_def toggle_tick_def quiet_tick_def)
  have t: "timestamp_column (timeval_delta \<lparr> tv_sec = 70, tv_usec = 9 \<rparr>
                                      \<lparr> tv_sec = 70, tv_usec = 0 \<rparr>) =
       [CHR 0x22] @ ''0.000009'' @ [CHR 0x22]"
    by code_simp
  show ?thesis
    using k t late_toggle_returns two_clients_no_rows late_toggle_rows by simp
qed

subsection \<open>C5: stale routes\<close>

text \<open>
  C5, as amended. Let \<open>B\<close> be connected in slot \<open>ib\<close> and let that connection end. The
  disconnection leaves the routing table as it was, and so does every later run of the
  main loop in which the operator gives no \<open>route\<close> command: new connections, frames,
  disconnections, the other console commands (the listing \<open>routes\<close> among them) and
  monitor mode never delete an entry. After any later run whatever, \<open>B\<close> is not connected
  (identifiers are not handed out twice), so a frame \<open>out<c>: X\<close> from a client \<open>A\<close>
  whose entry for channel \<open>c\<close> names \<open>B\<close> is dropped, at whatever place of a read it
  comes (after the complete frames \<open>before\<close>, which the loop has dispatched, and before
  the bytes \<open>rest\<close>): the loop dispatches it without a fault, nothing is sent or printed,
  and the state is the one before the frame but for \<open>A\<close>'s most recent output on channel
  \<open>c\<close>, which is the payload; the longer read goes through that very state and on with
  \<open>rest\<close>.
\<close>

theorem stale_route_safety:
  assumes "wf_server st0"
    and "find_client_index st0 B = Some ib" and "B < next_client_id st0"
    and "sole_owner B ib st0"
    and "handle_client_input ib Recv_closed st0 = Inr st"
    and "main_loop rs st = Inr st2"
    and "client_id (clients st2 ! ia) = A" and "0 \<le> A" and "A \<le> int MAX_CLIENTS"
    and "c < CHANNELS_PER_APP" and "in_client_id (routing st2 ! nat A ! c) = B"
    and "NUL \<notin> set X" and "NL \<notin> set X"
    and "complete_frames before"
    and "length (before @ out_frame c X @ [NL] @ rest) \<le> 511"
    and "process_lines ia before st2 = Inr st3"
  shows "routing st = routing st0
    \<and> (no_route_command rs \<longrightarrow> routing st2 = routing st0)
    \<and> find_client_index st2 B = None
    \<and> handle_client_input ia (Recv_data (before @ out_frame c X @ [NL])) st2 =
        Inr (st3 \<lparr> client_data := (client_data st3)
               [ia := (client_data st3 ! ia)
                  \<lparr> last_out := (last_out (client_data st3 ! ia))
                       [c := take (MAX_MSG_LENGTH - 1) (payload X)] \<rparr>] \<rparr>)
    \<and> io_log (final_state
          (handle_client_input ia (Recv_data (before @ out_frame c X @ [NL])) st2)) = io_log st3
    \<and> handle_client_input ia (Recv_data (before @ out_frame c X @ [NL] @ rest)) st2 =
        (case handle_client_input ia (Recv_data (before @ out_frame c X @ [NL])) st2 of
           Inl e \<Rightarrow> Inl e
         | Inr st4 \<Rightarrow> process_lines ia rest st4)"
proof -
  have s: "st = disconnect ib st0" using assms(5) by (simp add: handle_client_input_def)
  have r: "retired B st" unfolding s using assms(2-4,1) by (rule retired_after_disconnect)
  have r2: "retired B st2" using assms(6) r by (rule retired_main_loop)
  then have f: "find_client_index st2 B = None" by (simp add: retired_def)
  note k = process_lines_kept [OF assms(16)]
  have f3: "find_client_index st3 (in_client_id (routing st3 ! nat A ! c)) = None"
    using f assms(11) find_client_index_cong [OF k(1)] k(2) by simp
  have cid: "client_id (clients st3 ! ia) = A" using assms(7) k(1) by simp
  have c10: "c < 10" using assms(10) by (simp add: CHANNELS_PER_APP_def)
  let ?line = "out_frame c (takeWhile (\<lambda>b. b \<noteq> CR) X)"
  have m: "message_text ?line = payload X"
    by (simp add: message_text_out_frame [OF c10] payload_def)
  note g = handle_client_input_frame_at [OF c10 assms(12,13,14,16,15)]
  have h: "handle_client_input ia (Recv_data (before @ out_frame c X @ [NL])) st2 =
        Inr (store_last_out ia c (payload X) st3)"
    unfolding g(1)
    using handle_frame_dropped [OF out_channel_out_frame [OF c10,
          of "takeWhile (\<lambda>b. b \<noteq> CR) X"] assms(10) cid assms(8,9) f3]
    by (simp add: m)
  show ?thesis
    using h f g(2) routing_main_loop [OF assms(6)]
    by (simp add: s store_last_out_def)
qed

theorem stale_route_safety_witness:
  "wf_server routed \<and> find_client_index routed 2 = Some 1 \<and> 2 < next_client_id routed
   \<and> sole_owner 2 1 routed
   \<and> handle_client_input 1 Recv_closed routed = Inr after_leave
   \<and> main_loop later_run after_leave = Inr later
   \<and> no_route_command later_run
   \<and> active (clients later ! 1) \<and> client_id (clients later ! 1) = 3
   \<and> routing later ! 1 ! 0 = \<lparr> in_client_id = 2, in_channel = 0 \<rparr>
   \<and> routing later = routing routed
   \<and> find_client_index later 2 = None
   \<and> complete_frames (''out1: a'' @ [NL])
   \<and> process_lines 0 (''out1: a'' @ [NL]) later = Inr (store_last_out 0 1 ''a'' later)
   \<and> last_out (client_data (final_state (handle_client_input 0
        (Recv_data ((''out1: a'' @ [NL]) @ out_frame 0 ''ping'' @ [NL])) later)) ! 0) =
      [''ping'', ''a'', [], [], []]
   \<and> io_log (final_state (handle_client_input 0
        (Recv_data ((''out1: a'' @ [NL]) @ out_frame 0 ''ping'' @ [NL])) later)) = io_log later"
proof -
  have w: "wf_server routed" by code_simp
  have f: "find_client_index routed 2 = Some 1" by code_simp
  have n: "2 < next_client_id routed" by code_simp
  have s: "sole_owner 2 1 routed" by code_simp
  have g: "handle_client_input 1 Recv_closed routed = Inr after_leave" by code_simp
  have r: "main_loop later_run after_leave = Inr later" by code_simp
  have nr: "no_route_command later_run" by code_simp
  have a: "client_id (clients later ! 0) = 1" by code_simp
  have a3: "active (clients later ! 1) \<and> client_id (clients later ! 1) = 3" by code_simp
  have m: "(1::int) \<le> int MAX_CLIENTS" by (simp add: MAX_CLIENTS_def)
  have c: "(0::nat) < CHANNELS_PER_APP" by (simp add: CHANNELS_PER_APP_def)
  have e: "routing later ! 1 ! 0 = \<lparr> in_client_id = 2, in_channel = 0 \<rparr>" by code_simp
  then have e': "in_client_id (routing later ! nat 1 ! 0) = 2" by simp
  have p: "payload ''ping'' = ''ping''" by code_simp
  have cf: "complete_frames (''out1: a'' @ [NL])" by code_simp
  have b: "process_lines 0 (''out1: a'' @ [NL]) later = Inr (store_last_out 0 1 ''a'' later)"
    by code_simp
  have l: "length ((''out1: a'' @ [NL]) @ out_frame 0 ''ping'' @ [NL] @ []) \<le> 511"
    by code_simp
  have q: "last_out ((client_data (store_last_out 0 1 ''a'' later))
               [0 := (client_data (store_last_out 0 1 ''a'' later) ! 0)
                  \<lparr> last_out := (last_out (client_data (store_last_out 0 1 ''a'' later) ! 0))
                       [0 := take (MAX_MSG_LENGTH - 1) ''ping''] \<rparr>] ! 0) =
           [''ping'', ''a'', [], [], []]" by code_simp
  note t = stale_route_safety [OF w f n s g r a _ m c e' _ _ cf l b]
  have "routing later = routing routed" and "find_client_index later 2 = None"
    and "last_out (client_data (final_state (handle_client_input 0
        (Recv_data ((''out1: a'' @ [NL]) @ out_frame 0 ''ping'' @ [NL])) later)) ! 0) =
      [''ping'', ''a'', [], [], []]"
    and "io_log (final_state (handle_client_input 0
        (Recv_data ((''out1: a'' @ [NL]) @ out_frame 0 ''ping'' @ [NL])) later)) = io_log later"
    using t nr q unfolding p by simp_all
  then show ?thesis
    using w f n s g r nr a3 e cf b by simp
qed

text \<open>
  C5 as stated says the dispatcher state is unchanged. The dropped frame still updates the
  sender's output cache (this is C9).
\<close>

theorem stale_frame_updates_output_cache:
  "last_out (client_data later ! 0) ! 0 = []
   \<and> last_out (client_data (final_state
        (handle_client_input 0 (Recv_data (out_frame 0 ''ping'' @ [NL])) later)) ! 0) ! 0 = ''ping''
   \<and> handle_client_input 0 (Recv_data (out_frame 0 ''ping'' @ [NL])) later \<noteq> Inr later"
  by code_simp

subsection \<open>C6: registry bound\<close>

text \<open>
  C6. When every one of the \<open>MAX_CLIENTS\<close> slots is occupied, a further connection that
  \<open>accept\<close> hands over is sent the notice \<open>Server full.\<close> and closed. Nothing else
  happens: the registry, the caches, the routing table and the next client identifier are
  those of the state before, so no slot is allocated and no identifier is assigned.
\<close>

theorem registry_bound:
  assumes "0 \<le> client_sock" and "registry_full st"
  shows "handle_new_connection client_sock st =
           st \<lparr> io_log := io_log st @
                   [Send client_sock (''Server full.'' @ [NL]), Close client_sock] \<rparr>"
proof -
  have "List.find (\<lambda>i. \<not> active (clients st ! i)) [0..<MAX_CLIENTS] = None"
    using assms(2) by (simp add: find_None_iff registry_full_def)
  then show ?thesis
    using assms(1) by (simp add: handle_new_connection_def emit_def)
qed

theorem registry_bound_witness:
  "(0::int) \<le> 24 \<and> registry_full connect_all \<and>
   handle_new_connection 24 connect_all =
     connect_all \<lparr> io_log := io_log connect_all @
        [Send 24 (''Server full.'' @ [NL]), Close 24] \<rparr>"
proof -
  have h: "registry_full connect_all" by code_simp
  show ?thesis using registry_bound [of 24 connect_all] h by simp
qed

subsection \<open>C7: bulk-route expansion\<close>

text \<open>
  C7. For every source identifier \<open>A\<close> and destination identifier \<open>B\<close>, written in
  decimal on the line: the console command \<open>route A all B all\<close> ends in the very state
  (routing table, registry, caches and console output) in which the five commands
  \<open>route A i B i\<close>, \<open>i = 0..4\<close>, typed one after the other end; the console command
  \<open>route A all B d\<close> with a destination channel \<open>d\<close> leaves the routing table that the
  five commands \<open>route A i B d\<close> leave; and a startup file made of the one bulk line
  leaves the routing table that the file of the five lines leaves, in both forms.
\<close>

theorem bulk_route_expansion:
  "main_loop [console_only (route_text (show_int A) ''all'' (show_int B) ''all'')] st =
   main_loop (map (\<lambda>i. console_only (route_text (show_int A) (show_nat i) (show_int B) (show_nat i)))
                [0..<CHANNELS_PER_APP]) st
   \<and>
   routing (final_state
     (main_loop [console_only (route_text (show_int A) ''all'' (show_int B) (show_int d))] st)) =
   routing (final_state
     (main_loop (map (\<lambda>i. console_only (route_text (show_int A) (show_nat i) (show_int B) (show_int d)))
                [0..<CHANNELS_PER_APP]) st))
   \<and>
   routing (final_state (process_routing_file
      (Some [route_text (show_int A) ''all'' (show_int B) ''all'']) st)) =
   routing (final_state (process_routing_file
      (Some (map (\<lambda>i. route_text (show_int A) (show_nat i) (show_int B) (show_nat i))
               [0..<CHANNELS_PER_APP])) st))
   \<and>
   routing (final_state (process_routing_file
      (Some [route_text (show_int A) ''all'' (show_int B) (show_int d)]) st)) =
   routing (final_state (process_routing_file
      (Some (map (\<lambda>i. route_text (show_int A) (show_nat i) (show_int B) (show_int d))
               [0..<CHANNELS_PER_APP])) st))"
  using bulk_console_all_all [of A B st] bulk_console_all_fixed [of A B d st]
    bulk_file_all_all [of A B st] bulk_file_all_fixed [of A B d st]
  by (intro conjI)

text \<open>
  The bulk commands do install routes: with clients 1 and 2 connected, \<open>route 1 all 2 all\<close>
  on the console fills row 1 of the table index by index, and \<open>route 1 all 2 3\<close> in the
  startup file sends every channel to channel 3.
\<close>

lemma bulk_route_console_sample:
  "routing (final_state
     (main_loop [console_only (route_text (show_int 1) ''all'' (show_int 2) ''all'')] two_clients)) ! 1 =
   map (\<lambda>i. \<lparr> in_client_id = 2, in_channel = i \<rparr>) [0, 1, 2, 3, 4]"
  by code_simp

lemma bulk_route_file_sample:
  "routing (final_state (process_routing_file
      (Some [route_text (show_int 1) ''all'' (show_int 2) (show_int 3)]) init_server)) ! 1 =
   replicate 5 \<lparr> in_client_id = 2, in_channel = 3 \<rparr>"
  by code_simp

theorem bulk_route_expansion_witness:
  "routing (final_state
     (main_loop (map (\<lambda>i. console_only (route_text (show_int 1) (show_nat i) (show_int 2) (show_nat i)))
                [0..<CHANNELS_PER_APP]) two_clients)) ! 1 =
   map (\<lambda>i. \<lparr> in_client_id = 2, in_channel = i \<rparr>) [0, 1, 2, 3, 4]
   \<and>
   routing (final_state (process_routing_file
      (Some (map (\<lambda>i. route_text (show_int 1) (show_nat i) (show_int 2) (show_int 3))
               [0..<CHANNELS_PER_APP])) init_server)) ! 1 =
   replicate 5 \<lparr> in_client_id = 2, in_channel = 3 \<rparr>"
  using bulk_route_expansion [of 1 2 two_clients 3] bulk_route_expansion [of 1 2 init_server 3]
    bulk_route_console_sample bulk_route_file_sample
  by simp

subsection \<open>C8: the routing table is indexed by unbounded client identifiers\<close>

text \<open>
  C8. The claim that every access \<open>routing[cid][ch]\<close> has \<open>0 \<le> cid \<le> MAX_CLIENTS\<close>
  fails on the code. The startup line \<open>route 21 0 1 0\<close> writes \<open>routing[21][0]\<close>, one
  row past the table. After twenty connections, one disconnection and one more connection
  the new client has identifier 21; its frame \<open>out0: x\<close> makes the dispatcher read
  \<open>routing[21][0]\<close>, and the console command \<open>route 21 0 2 0\<close> writes it.
\<close>

theorem routing_index_out_of_bounds:
  "process_routing_file (Some [route_text ''21'' ''0'' ''1'' ''0'']) init_server =
     Inl (Routing_out_of_bounds 21 0 init_server)
   \<and> client_id (clients client21 ! 0) = 21
   \<and> active (clients client21 ! 0)
   \<and> handle_client_input 0 (Recv_data (''out0: x'' @ [NL])) client21 =
       Inl (Routing_out_of_bounds 21 0 (store_last_out 0 0 ''x'' client21))
   \<and> handle_console_input (route_text ''21'' ''0'' ''2'' ''0'') no_monitor client21 =
       Inl (Routing_out_of_bounds 21 0 client21)"
proof (intro conjI)
  show "process_routing_file (Some [route_text ''21'' ''0'' ''1'' ''0'']) init_server =
     Inl (Routing_out_of_bounds 21 0 init_server)"
    by code_simp
  show "client_id (clients client21 ! 0) = 21"
    by code_simp
  show "active (clients client21 ! 0)"
    by code_simp
  show "handle_client_input 0 (Recv_data (''out0: x'' @ [NL])) client21 =
       Inl (Routing_out_of_bounds 21 0 (store_last_out 0 0 ''x'' client21))"
    by code_simp
  show "handle_console_input (route_text ''21'' ''0'' ''2'' ''0'') no_monitor client21 =
       Inl (Routing_out_of_bounds 21 0 client21)"
    by code_simp
qed

theorem routing_index_out_of_bounds_witness:
  "\<not> returns (process_routing_file (Some [route_text ''21'' ''0'' ''1'' ''0'']) init_server)
   \<and> \<not> returns (handle_client_input 0 (Recv_data (''out0: x'' @ [NL])) client21)
   \<and> \<not> returns (handle_console_input (route_text ''21'' ''0'' ''2'' ''0'') no_monitor client21)"
  using routing_index_out_of_bounds by simp

subsection \<open>C9: the output cache is updated whatever the routing table holds\<close>

text \<open>
  C9. For every state of the server, so for every routing table and every registry, every
  slot \<open>i\<close> and every channel \<open>c\<close> in \<open>[0, 5)\<close>, and for a complete frame
  \<open>out<c>: msg\<close> at any place of a read on slot \<open>i\<close>: after the complete frames
  \<open>before\<close>, which the loop has dispatched without a fault, and before the bytes
  \<open>rest\<close>, complete frames or not. When the loop has dispatched the frame, that is at
  the end of the read that stops after it, the most recent output of slot \<open>i\<close> on
  channel \<open>c\<close> is the payload of \<open>msg\<close>, cut to \<open>MAX_MSG_LENGTH - 1 = 511\<close> bytes;
  and the longer read goes through that very state and on with \<open>rest\<close>. The store comes
  before the routing table is looked at, so it is there whether a route exists or not,
  whether its destination is connected or not, and also when the look-up itself cannot be
  made.
\<close>

theorem output_cache_update:
  assumes "wf_server st" and "i < MAX_CLIENTS" and "c < CHANNELS_PER_APP"
    and "NUL \<notin> set msg" and "NL \<notin> set msg"
    and "complete_frames before"
    and "length (before @ out_frame c msg @ [NL] @ rest) \<le> 511"
    and "process_lines i before st = Inr st1"
  shows "last_out (client_data (final_state
           (handle_client_input i (Recv_data (before @ out_frame c msg @ [NL])) st)) ! i) ! c =
         take (MAX_MSG_LENGTH - 1) (payload msg)
    \<and> handle_client_input i (Recv_data (before @ out_frame c msg @ [NL] @ rest)) st =
        (case handle_client_input i (Recv_data (before @ out_frame c msg @ [NL])) st of
           Inl e \<Rightarrow> Inl e
         | Inr st2 \<Rightarrow> process_lines i rest st2)"
proof -
  have c: "c < 10" using assms(3) by (simp add: CHANNELS_PER_APP_def)
  have w: "wf_server st1"
    using process_lines_wf [OF assms(1), of i before] assms(8) by simp
  have i: "i < length (client_data st1)" using w assms(2) by (simp add: wf_server_def)
  have "length (last_out (client_data st1 ! i)) = CHANNELS_PER_APP"
    using w i by (simp add: wf_server_def list_all_length)
  then have l: "c < length (last_out (client_data st1 ! i))" using assms(3) by simp
  note h = handle_client_input_frame_at [OF c assms(4,5,6,8,7)]
  have "last_out (client_data (final_state
           (handle_client_input i (Recv_data (before @ out_frame c msg @ [NL])) st)) ! i) ! c =
         take (MAX_MSG_LENGTH - 1) (payload msg)"
    unfolding h(1)
    using last_out_final_handle_frame [OF i l out_channel_out_frame [OF c] assms(3)]
    by (simp add: message_text_out_frame [OF c] payload_def)
  then show ?thesis using h(2) by simp
qed

theorem output_cache_update_witness:
  "wf_server two_clients \<and> (0::nat) < MAX_CLIENTS \<and> (2::nat) < CHANNELS_PER_APP
   \<and> complete_frames (''out1: a'' @ [NL])
   \<and> process_lines 0 (''out1: a'' @ [NL]) two_clients = Inr (store_last_out 0 1 ''a'' two_clients)
   \<and> routing two_clients ! 1 ! 2 = \<lparr> in_client_id = - 1, in_channel = - 1 \<rparr>
   \<and> last_out (client_data (final_state
        (handle_client_input 0
           (Recv_data ((''out1: a'' @ [NL]) @ out_frame 2 ''  temp=21'' @ [NL])) two_clients)) ! 0) ! 2 =
      ''temp=21''
   \<and> handle_client_input 0
        (Recv_data ((''out1: a'' @ [NL]) @ out_frame 2 ''  temp=21'' @ [NL] @ ''out2: 22'' @ [NL]))
        two_clients =
      (case handle_client_input 0
              (Recv_data ((''out1: a'' @ [NL]) @ out_frame 2 ''  temp=21'' @ [NL])) two_clients of
         Inl e \<Rightarrow> Inl e
       | Inr st2 \<Rightarrow> process_lines 0 (''out2: 22'' @ [NL]) st2)"
proof -
  have i: "(0::nat) < MAX_CLIENTS" by (simp add: MAX_CLIENTS_def)
  have c: "(2::nat) < CHANNELS_PER_APP" by (simp add: CHANNELS_PER_APP_def)
  have f: "complete_frames (''out1: a'' @ [NL])" by code_simp
  have b: "process_lines 0 (''out1: a'' @ [NL]) two_clients =
             Inr (store_last_out 0 1 ''a'' two_clients)" by code_simp
  have n: "length ((''out1: a'' @ [NL]) @ out_frame 2 ''  temp=21'' @ [NL] @ ''out2: 22'' @ [NL])
             \<le> 511" by code_simp
  have r: "routing two_clients ! 1 ! 2 = \<lparr> in_client_id = - 1, in_channel = - 1 \<rparr>" by code_simp
  have p: "take (MAX_MSG_LENGTH - 1) (payload ''  temp=21'') = ''temp=21''" by code_simp
  show ?thesis
    using output_cache_update [OF wf_two_clients i c _ _ f n b] i c f b r wf_two_clients
    unfolding p by simp
qed

subsection \<open>C10: a reused slot shows the caches of its previous occupant\<close>

text \<open>
  C10. The caches are emptied by \<open>main\<close> before the loop starts (\<open>init_server\<close>). The
  disconnection of slot \<open>i\<close> leaves every cache as it was, and so does the connection
  that follows. When slot \<open>i\<close> is the lowest free slot, the new client,
  whose identifier is new, occupies it, and what \<open>print\<close> shows for the new identifier
  and what the monitor view shows on its line are the output and input texts that the
  previous occupant left in slot \<open>i\<close>.
\<close>

theorem slot_reuse_exposes_caches:
  assumes "wf_server st" and "i < MAX_CLIENTS" and "active (clients st ! i)"
    and "list_all (\<lambda>j. active (clients st ! j)) [0..<i]"
    and "ids_handed_out st" and "0 \<le> sock"
  shows "client_data init_server =
           replicate MAX_CLIENTS \<lparr> last_out = replicate CHANNELS_PER_APP [],
                                    last_in = replicate CHANNELS_PER_APP [] \<rparr>
    \<and> client_data (final_state (handle_client_input i Recv_closed st)) = client_data st
    \<and> client_data (reuse_slot i sock st) = client_data st
    \<and> client_id (clients st ! i) \<noteq> next_client_id st
    \<and> find_client_index (reuse_slot i sock st) (next_client_id st) = Some i
    \<and> handle_console_input (print_text (next_client_id st)) mi (reuse_slot i sock st) =
        Inr (print_lines
              ([''Data for client'' @ show_int (next_client_id st) @ '' ('' @
                  name (clients (reuse_slot i sock st) ! i) @ ''):'' @ [NL],
                pad_right 8 ''Channel'' @ '' | '' @ pad_right 50 ''Output'' @
                  '' | '' @ pad_right 50 ''Input'' @ [NL],
                replicate 80 (CHR ''-'') @ [NL]] @
               map (\<lambda>ch. pad_right 8 (show_nat ch) @ '' | '' @
                          pad_trunc 50 (last_out (client_data st ! i) ! ch) @ '' | '' @
                          pad_trunc 50 (last_in (client_data st ! i) ! ch) @ [NL])
                 [0..<CHANNELS_PER_APP])
              (reuse_slot i sock st))
    \<and> monitor_row (reuse_slot i sock st) i =
        ''client'' @ pad_right 4 (show_int (next_client_id st)) @ '' | '' @
        concat (map (\<lambda>ch. ''['' @ show_nat ch @ '']: '' @
                           pad_trunc 10 (last_out (client_data st ! i) ! ch) @ '' '')
                  [0..<CHANNELS_PER_APP]) @ [NL]
    \<and> monitor_row (reuse_slot i sock st) i \<in> set (monitor_view fps m (reuse_slot i sock st))"
proof -
  note r = reuse_slot_eq [OF assms(1,2,4,6)]
  note f = find_client_index_reused [OF assms(1,2,4,6,5)]
  have l: "i < length (clients st)" using assms(1,2) by (simp add: wf_server_def)
  have k: "is_int (next_client_id st)" using assms(1) by (simp add: wf_server_def)
  have n: "client_id (clients st ! i) < next_client_id st"
    using assms(2,3,5) by (simp add: ids_handed_out_def list_all_iff)
  have pr: "print_row (reuse_slot i sock st) i =
      (\<lambda>ch. pad_right 8 (show_nat ch) @ '' | '' @
             pad_trunc 50 (last_out (client_data st ! i) ! ch) @ '' | '' @
             pad_trunc 50 (last_in (client_data st ! i) ! ch) @ [NL])"
    by (rule ext) (simp add: print_row_def r(2))
  have a: "active (clients (reuse_slot i sock st) ! i)"
    and c: "client_id (clients (reuse_slot i sock st) ! i) = next_client_id st"
    using l by (simp_all add: r(1))
  have v: "monitor_row (reuse_slot i sock st) i \<in> set (monitor_view fps m (reuse_slot i sock st))"
    using a assms(2) by (simp add: monitor_view_def)
  show ?thesis
    using n v
    by (simp add: handle_client_input_def r(2) f handle_console_input_print console_print_def
        atoi_show_int [OF k] pr monitor_row_def monitor_channels_def c init_server_def)
qed

theorem slot_reuse_exposes_caches_witness:
  "wf_server spoke \<and> (0::nat) < MAX_CLIENTS \<and> active (clients spoke ! 0)
   \<and> client_id (clients spoke ! 0) = 1 \<and> ids_handed_out spoke \<and> next_client_id spoke = 3
   \<and> last_out (client_data spoke ! 0) ! 0 = ''secret''
   \<and> client_data (reuse_slot 0 7 spoke) = client_data spoke
   \<and> find_client_index (reuse_slot 0 7 spoke) 3 = Some 0
   \<and> Print (''0        | '' @ ''secret'' @ replicate 44 (CHR '' '') @ '' | '' @
             replicate 50 (CHR '' '') @ [NL])
       \<in> set (io_log (final_state
               (handle_console_input (print_text 3) no_monitor (reuse_slot 0 7 spoke))))
   \<and> monitor_row (reuse_slot 0 7 spoke) 0 =
       ''client3    | [0]: secret     [1]:            [2]:            [3]:            [4]:            ''
       @ [NL]"
proof -
  have w: "wf_server spoke" by code_simp
  have i: "(0::nat) < MAX_CLIENTS" by (simp add: MAX_CLIENTS_def)
  have a: "active (clients spoke ! 0)" by code_simp
  have c: "client_id (clients spoke ! 0) = 1" by code_simp
  have l: "list_all (\<lambda>j. active (clients spoke ! j)) [0..<0]" by simp
  have h: "ids_handed_out spoke" by code_simp
  have n: "next_client_id spoke = 3" by code_simp
  have s: "last_out (client_data spoke ! 0) ! 0 = ''secret''" by code_simp
  have r: "''client'' @ pad_right 4 (show_int 3) @ '' | '' @
        concat (map (\<lambda>ch. ''['' @ show_nat ch @ '']: '' @
                           pad_trunc 10 (last_out (client_data spoke ! 0) ! ch) @ '' '')
                  [0..<CHANNELS_PER_APP]) @ [NL] =
       ''client3    | [0]: secret     [1]:            [2]:            [3]:            [4]:            ''
       @ [NL]" by code_simp
  have p: "Print (''0        | '' @ ''secret'' @ replicate 44 (CHR '' '') @ '' | '' @
             replicate 50 (CHR '' '') @ [NL])
       \<in> set (io_log (final_state
               (handle_console_input (print_text 3) no_monitor (reuse_slot 0 7 spoke))))"
    by code_simp
  note t = slot_reuse_exposes_caches [OF w i a l h, of 7 no_monitor]
  have "client_data (reuse_slot 0 7 spoke) = client_data spoke"
    and "find_client_index (reuse_slot 0 7 spoke) 3 = Some 0"
    and "monitor_row (reuse_slot 0 7 spoke) 0 =
       ''client3    | [0]: secret     [1]:            [2]:            [3]:            [4]:            ''
       @ [NL]"
    using t unfolding n r by simp_all
  then show ?thesis
    using w i a c h n s p by simp
qed

end
